theory Spec2Isabelle
  imports Main "HOL-Library.AList"
begin

section \<open>The chunk payload extractor\<close>

text \<open>
  \<^verbatim>\<open>interface ChunkParserState { buffer: string; depth: number; inString: boolean;
  escaping: boolean }\<close>.  A JavaScript string is a sequence of code units; the scanner
  compares a code unit only with four ASCII characters (the two braces, the quote and the
  backslash), so a code unit is modelled as a \<^typ>\<open>char\<close>.  The depth is a JavaScript number that only ever moves in
  steps of one; it is an \<^typ>\<open>int\<close>.
\<close>

record ChunkParserState =
  buffer :: string
  depth :: int
  inString :: bool
  escaping :: bool

text \<open>The state \<^verbatim>\<open>getParserState\<close> creates for a record id it has not seen.\<close>

definition getParserState_fresh :: ChunkParserState where
  "getParserState_fresh = \<lparr>buffer = [], depth = 0, inString = False, escaping = False\<rparr>"

abbreviation dquote :: char where "dquote \<equiv> CHR 0x22"
abbreviation backslash :: char where "backslash \<equiv> CHR 0x5C"

text \<open>
  One iteration of the \<^verbatim>\<open>for\<close> loop of \<^verbatim>\<open>extractJsonPayloads\<close>: the payloads
  pushed so far and the parser state, before and after the character \<open>c\<close>.  Every
  \<^verbatim>\<open>continue\<close> of the source is one branch.
\<close>

definition scanChar :: "string list \<times> ChunkParserState \<Rightarrow> char \<Rightarrow> string list \<times> ChunkParserState" where
  "scanChar acc c =
    (let payloads = fst acc; state = snd acc in
     if depth state = 0 then
       (if c = CHR ''{'' then (payloads, state\<lparr>buffer := ''{'', depth := 1\<rparr>)
        else (payloads, state))
     else
       let state = state\<lparr>buffer := buffer state @ [c]\<rparr> in
       if escaping state then (payloads, state\<lparr>escaping := False\<rparr>)
       else if c = backslash then (payloads, state\<lparr>escaping := True\<rparr>)
       else if c = dquote then (payloads, state\<lparr>inString := \<not> inString state\<rparr>)
       else if inString state then (payloads, state)
       else if c = CHR ''{'' then (payloads, state\<lparr>depth := depth state + 1\<rparr>)
       else if c = CHR ''}'' then
         (let state = state\<lparr>depth := depth state - 1\<rparr> in
          if depth state = 0 then (payloads @ [buffer state], state\<lparr>buffer := []\<rparr>)
          else (payloads, state))
       else (payloads, state))"

definition extractJsonPayloads :: "string \<Rightarrow> ChunkParserState \<Rightarrow> string list \<times> ChunkParserState" where
  "extractJsonPayloads chunk state = foldl scanChar ([], state) chunk"

text \<open>
  The chunks of one record are scanned in order with the one parser state of that record
  (\<^verbatim>\<open>newChunks.forEach\<close> in \<^verbatim>\<open>useAguiMessageRegistry\<close>, through
  \<^verbatim>\<open>processChunk\<close>); \<open>feedChunks\<close> collects the payloads of all calls in order.
\<close>

fun feedChunks :: "string list \<Rightarrow> ChunkParserState \<Rightarrow> string list \<times> ChunkParserState" where
  "feedChunks [] state = ([], state)"
| "feedChunks (chunk # chunks) state =
    (let r = extractJsonPayloads chunk state; q = feedChunks chunks (snd r)
     in (fst r @ fst q, snd q))"

subsection \<open>JSON texts\<close>

text \<open>
  The grammar of JSON texts (RFC 8259), with insignificant white space, as the notion of
  a complete JSON object string.
\<close>

definition ws_char :: "char \<Rightarrow> bool" where
  "ws_char c \<longleftrightarrow> c \<in> {CHR 0x20, CHR 0x09, CHR 0x0A, CHR 0x0D}"

definition ws :: "string \<Rightarrow> bool" where
  "ws w \<longleftrightarrow> list_all ws_char w"

definition digit :: "char \<Rightarrow> bool" where
  "digit c \<longleftrightarrow> c \<in> set ''0123456789''"

definition hexdigit :: "char \<Rightarrow> bool" where
  "hexdigit c \<longleftrightarrow> c \<in> set ''0123456789abcdefABCDEF''"

definition digits :: "string \<Rightarrow> bool" where
  "digits ds \<longleftrightarrow> ds \<noteq> [] \<and> list_all digit ds"

definition json_int :: "string \<Rightarrow> bool" where
  "json_int s \<longleftrightarrow> s = ''0'' \<or> (digits s \<and> hd s \<noteq> CHR ''0'')"

definition json_frac :: "string \<Rightarrow> bool" where
  "json_frac s \<longleftrightarrow> s = [] \<or> (\<exists>ds. digits ds \<and> s = CHR ''.'' # ds)"

definition json_exp :: "string \<Rightarrow> bool" where
  "json_exp s \<longleftrightarrow> s = [] \<or>
     (\<exists>e sg ds. e \<in> {CHR ''e'', CHR ''E''} \<and> sg \<in> {[], ''+'', ''-''} \<and> digits ds \<and> s = e # sg @ ds)"

definition json_number :: "string \<Rightarrow> bool" where
  "json_number s \<longleftrightarrow>
     (\<exists>sg i f e. sg \<in> {[], ''-''} \<and> json_int i \<and> json_frac f \<and> json_exp e \<and> s = sg @ i @ f @ e)"

text \<open>
  The characters between the quotes of a string literal: an unescaped character is
  neither a quote, a backslash nor a control character; a backslash is followed by a
  quote, a backslash, a slash, one of the letters \<^verbatim>\<open>b f n r t\<close>, or by \<^verbatim>\<open>u\<close> and
  four hexadecimal digits.
\<close>

inductive string_body :: "string \<Rightarrow> bool" where
  body_end: "string_body []"
| body_char: "c \<noteq> dquote \<Longrightarrow> c \<noteq> backslash \<Longrightarrow> (32::nat) \<le> of_char c \<Longrightarrow> string_body s
     \<Longrightarrow> string_body (c # s)"
| body_escape: "e \<in> set [dquote, backslash, CHR ''/'', CHR ''b'', CHR ''f'', CHR ''n'', CHR ''r'', CHR ''t'']
     \<Longrightarrow> string_body s \<Longrightarrow> string_body (backslash # e # s)"
| body_unicode: "hexdigit h1 \<Longrightarrow> hexdigit h2 \<Longrightarrow> hexdigit h3 \<Longrightarrow> hexdigit h4 \<Longrightarrow> string_body s
     \<Longrightarrow> string_body (backslash # CHR ''u'' # h1 # h2 # h3 # h4 # s)"

definition json_string :: "string \<Rightarrow> bool" where
  "json_string s \<longleftrightarrow> (\<exists>b. string_body b \<and> s = dquote # b @ [dquote])"

inductive json_value :: "string \<Rightarrow> bool"
  and json_object :: "string \<Rightarrow> bool"
  and json_members :: "string \<Rightarrow> bool"
  and json_elements :: "string \<Rightarrow> bool"
where
  value_null: "json_value ''null''"
| value_true: "json_value ''true''"
| value_false: "json_value ''false''"
| value_number: "json_number s \<Longrightarrow> json_value s"
| value_string: "json_string s \<Longrightarrow> json_value s"
| value_object: "json_object s \<Longrightarrow> json_value s"
| value_array_empty: "ws w \<Longrightarrow> json_value (''['' @ w @ '']'')"
| value_array: "json_elements es \<Longrightarrow> json_value (''['' @ es @ '']'')"
| object_empty: "ws w \<Longrightarrow> json_object (''{'' @ w @ ''}'')"
| object_members: "json_members ms \<Longrightarrow> json_object (''{'' @ ms @ ''}'')"
| member_one: "ws w1 \<Longrightarrow> json_string k \<Longrightarrow> ws w2 \<Longrightarrow> ws w3 \<Longrightarrow> json_value v \<Longrightarrow> ws w4
     \<Longrightarrow> json_members (w1 @ k @ w2 @ '':'' @ w3 @ v @ w4)"
| member_more: "ws w1 \<Longrightarrow> json_string k \<Longrightarrow> ws w2 \<Longrightarrow> ws w3 \<Longrightarrow> json_value v \<Longrightarrow> ws w4
     \<Longrightarrow> json_members ms \<Longrightarrow> json_members (w1 @ k @ w2 @ '':'' @ w3 @ v @ w4 @ '','' @ ms)"
| element_one: "ws w1 \<Longrightarrow> json_value v \<Longrightarrow> ws w2 \<Longrightarrow> json_elements (w1 @ v @ w2)"
| element_more: "ws w1 \<Longrightarrow> json_value v \<Longrightarrow> ws w2 \<Longrightarrow> json_elements es
     \<Longrightarrow> json_elements (w1 @ v @ w2 @ '','' @ es)"

subsection \<open>Text the scanner passes over inside an object\<close>

text \<open>
  A text is \<open>inert\<close> when the scanner, inside an object and outside a string literal,
  appends it to the buffer, pushes nothing and comes back to the depth and flags it had.
\<close>

definition inert :: "string \<Rightarrow> bool" where
  "inert t \<longleftrightarrow> (\<forall>ps st. 0 < depth st \<longrightarrow> \<not> inString st \<longrightarrow> \<not> escaping st \<longrightarrow>
     foldl scanChar (ps, st) t = (ps, st\<lparr>buffer := buffer st @ t\<rparr>))"

definition plain :: "char \<Rightarrow> bool" where
  "plain c \<longleftrightarrow> c \<noteq> dquote \<and> c \<noteq> backslash \<and> c \<noteq> CHR ''{'' \<and> c \<noteq> CHR ''}''"

subsection \<open>Two sample objects\<close>

text \<open>
  An object with the one member \<^verbatim>\<open>"a"\<close>, whose string value is an opening brace, a closing
  brace and an escaped quote.
\<close>

definition sample_escaped :: string where
  "sample_escaped = [CHR ''{'', dquote, CHR ''a'', dquote, CHR '':'',
     dquote, CHR ''{'', CHR ''}'', backslash, dquote, dquote, CHR ''}'']"

text \<open>\<^verbatim>\<open>{"k": {"m":[1,"}"]}}\<close>: a nested object with a closing brace inside a string.\<close>

definition sample_nested :: string where
  "sample_nested = [CHR ''{'', dquote, CHR ''k'', dquote, CHR '':'', CHR '' '', CHR ''{'', dquote, CHR ''m'', dquote, CHR '':'',
     CHR ''['', CHR ''1'', CHR '','', dquote, CHR ''}'', dquote, CHR '']'', CHR ''}'', CHR ''}'']"

section \<open>The AG-UI message registry\<close>

subsection \<open>JavaScript values\<close>

text \<open>
  The registry works on what \<^verbatim>\<open>JSON.parse\<close> returns and on the objects it builds from
  that with spread syntax.  \<open>JUndefined\<close> is \<^verbatim>\<open>undefined\<close>: what reading a missing
  property, an index out of range or a hole of an array gives.  An object is the list of its
  properties, read through \<open>map_of\<close>.  Numbers are the integers: array positions are the
  only numbers the registry looks into, and a number with a fraction is outside the model.
  Values are compared by value.  For strings, numbers, booleans, \<^verbatim>\<open>null\<close> and
  \<^verbatim>\<open>undefined\<close> that is what \<^verbatim>\<open>===\<close> and the keys of a \<^verbatim>\<open>Map\<close> or a
  \<^verbatim>\<open>Set\<close> do.  Arrays and objects JavaScript compares by reference, so that two
  messages whose \<^verbatim>\<open>id\<close> is the array \<^verbatim>\<open>[1]\<close> are two records of the store and one
  in the model: the model is that of the registry on messages whose \<^verbatim>\<open>id\<close>,
  \<^verbatim>\<open>__typename\<close> and \<^verbatim>\<open>name\<close>, the three values the registry compares or uses as
  keys, are no arrays and no objects.  The interface \<^verbatim>\<open>AGUIMessage\<close> declares them
  as strings.
\<close>

datatype json =
    JUndefined
  | JNull
  | JBool bool
  | JNum int
  | JStr string
  | JArr "json list"
  | JObj "(string \<times> json) list"

text \<open>The condition of \<^verbatim>\<open>if (v)\<close>, \<^verbatim>\<open>!v\<close>, \<^verbatim>\<open>v && ...\<close> and \<^verbatim>\<open>v || ...\<close>.\<close>

fun truthy :: "json \<Rightarrow> bool" where
  "truthy JUndefined = False"
| "truthy JNull = False"
| "truthy (JBool b) = b"
| "truthy (JNum n) = (n \<noteq> 0)"
| "truthy (JStr s) = (s \<noteq> [])"
| "truthy (JArr xs) = True"
| "truthy (JObj kvs) = True"

text \<open>
  The property read \<^verbatim>\<open>v.k\<close>, for the names the registry reads (\<^verbatim>\<open>data\<close>,
  \<^verbatim>\<open>incremental\<close>, \<^verbatim>\<open>generateCopilotResponse\<close>, \<^verbatim>\<open>messages\<close>, \<^verbatim>\<open>items\<close>,
  \<^verbatim>\<open>path\<close>, \<^verbatim>\<open>id\<close>, \<^verbatim>\<open>__typename\<close>, \<^verbatim>\<open>name\<close>, \<^verbatim>\<open>createdAt\<close>,
  \<^verbatim>\<open>arguments\<close>, \<^verbatim>\<open>content\<close>): none of them is a property of a string, a number, a
  boolean or an array.  The source reads a property only of a value it has tested to be
  truthy, so the read never throws.
\<close>

fun property :: "json \<Rightarrow> string \<Rightarrow> json" where
  "property (JObj kvs) k = (case map_of kvs k of None \<Rightarrow> JUndefined | Some v \<Rightarrow> v)"
| "property _ k = JUndefined"

fun isArray :: "json \<Rightarrow> bool" where
  "isArray (JArr xs) = True"
| "isArray _ = False"

fun isString :: "json \<Rightarrow> bool" where
  "isString (JStr s) = True"
| "isString _ = False"

text \<open>\<^verbatim>\<open>typeof v === 'object'\<close>.\<close>

fun isObjectType :: "json \<Rightarrow> bool" where
  "isObjectType JNull = True"
| "isObjectType (JArr xs) = True"
| "isObjectType (JObj kvs) = True"
| "isObjectType _ = False"

text \<open>The array read \<^verbatim>\<open>xs[i]\<close>.\<close>

definition at :: "json list \<Rightarrow> nat \<Rightarrow> json" where
  "at xs i = (if i < length xs then xs ! i else JUndefined)"

text \<open>\<^verbatim>\<open>Array.prototype.findIndex\<close>; \<open>None\<close> is the result \<^verbatim>\<open>-1\<close>.\<close>

fun findIndex :: "('a \<Rightarrow> bool) \<Rightarrow> 'a list \<Rightarrow> nat option" where
  "findIndex P [] = None"
| "findIndex P (x # xs) = (if P x then Some 0 else map_option Suc (findIndex P xs))"

text \<open>The decimal name of an index, as a property key.\<close>

function dec :: "nat \<Rightarrow> string" where
  "dec n = (if n < 10 then [char_of (48 + n)] else dec (n div 10) @ [char_of (48 + n mod 10)])"
  by pat_completeness auto
termination
  by (relation "measure id") auto

text \<open>
  The own enumerable properties that \<^verbatim>\<open>{...v}\<close> copies: those of an object, the indexed
  elements of an array, the indexed characters of a string, none of any other value.
\<close>

fun spread :: "json \<Rightarrow> (string \<times> json) list" where
  "spread (JObj kvs) = kvs"
| "spread (JArr xs) = map (\<lambda>i. (dec i, xs ! i)) [0..<length xs]"
| "spread (JStr s) = map (\<lambda>i. (dec i, JStr [s ! i])) [0..<length s]"
| "spread _ = []"

subsection \<open>The registry and its readers\<close>

text \<open>
  The module-level state: \<^verbatim>\<open>messageStore\<close>, \<^verbatim>\<open>messagesByType\<close>,
  \<^verbatim>\<open>actionExecutionMessages\<close> and \<^verbatim>\<open>subscribers\<close>.  A \<^verbatim>\<open>Map\<close> and a \<^verbatim>\<open>Set\<close>
  keep insertion order, so a map is an association list (\<open>AList.update\<close> replaces in place
  or appends, as \<^verbatim>\<open>Map.prototype.set\<close> does) and a set is a list without duplicates.
  A subscriber is a function reference, here a number.  What calling a subscriber does is
  outside the module; the model records each call, subscriber and argument, in \<open>notified\<close>,
  and takes it that a subscriber returns normally and does not call back into the module.
\<close>

type_synonym MessageSubscriber = nat

record registry =
  messageStore :: "(json \<times> json) list"
  messagesByType :: "(json \<times> json list) list"
  actionExecutionMessages :: "(json \<times> json) list"
  subscribers :: "MessageSubscriber list"
  notified :: "(MessageSubscriber \<times> json) list"

definition empty_registry :: registry where
  "empty_registry = \<lparr>messageStore = [], messagesByType = [], actionExecutionMessages = [],
     subscribers = [], notified = []\<rparr>"

text \<open>\<^verbatim>\<open>Map.prototype.get\<close> and \<^verbatim>\<open>Set.prototype.add\<close>.\<close>

definition map_get :: "(json \<times> json) list \<Rightarrow> json \<Rightarrow> json" where
  "map_get m k = (case map_of m k of None \<Rightarrow> JUndefined | Some v \<Rightarrow> v)"

definition set_add :: "'a \<Rightarrow> 'a list \<Rightarrow> 'a list" where
  "set_add x xs = (if x \<in> set xs then xs else xs @ [x])"

definition subscribeToAguiMessages :: "MessageSubscriber \<Rightarrow> registry \<Rightarrow> registry" where
  "subscribeToAguiMessages callback reg = reg\<lparr>subscribers := set_add callback (subscribers reg)\<rparr>"

text \<open>The function \<^verbatim>\<open>subscribeToAguiMessages\<close> returns.\<close>

definition unsubscribe :: "MessageSubscriber \<Rightarrow> registry \<Rightarrow> registry" where
  "unsubscribe callback reg = reg\<lparr>subscribers := removeAll callback (subscribers reg)\<rparr>"

definition getAguiMessage :: "string \<Rightarrow> registry \<Rightarrow> json" where
  "getAguiMessage ident reg =
     (let m = map_get (messageStore reg) (JStr ident) in if truthy m then m else JNull)"

definition getAguiMessagesByType :: "string \<Rightarrow> registry \<Rightarrow> json list" where
  "getAguiMessagesByType typename reg =
     (case map_of (messagesByType reg) (JStr typename) of
        None \<Rightarrow> []
      | Some ids \<Rightarrow> filter truthy (map (map_get (messageStore reg)) ids))"

definition getLatestActionExecution :: "string \<Rightarrow> registry \<Rightarrow> json" where
  "getLatestActionExecution actionName reg =
     (let m = map_get (actionExecutionMessages reg) (JStr actionName) in if truthy m then m else JNull)"

definition getAllAguiMessages :: "registry \<Rightarrow> json list" where
  "getAllAguiMessages reg = map snd (messageStore reg)"

abbreviation ActionExecutionMessageOutput :: json where
  "ActionExecutionMessageOutput \<equiv> JStr ''ActionExecutionMessageOutput''"

text \<open>
  \<^verbatim>\<open>shouldRenderAction\<close>.  The parameter \<open>getTime\<close> is the platform's
  \<^verbatim>\<open>new Date(v).getTime()\<close>: the milliseconds since the epoch, or \<open>None\<close> for the
  \<^verbatim>\<open>NaN\<close> of a value that is no date (a missing \<^verbatim>\<open>createdAt\<close> is one).
  \<open>storedActionsNamed\<close> is the array the \<^verbatim>\<open>filter\<close> call gives, in the order of the
  store.
\<close>

definition storedActionsNamed :: "registry \<Rightarrow> json \<Rightarrow> json list" where
  "storedActionsNamed reg actionMessage =
     filter (\<lambda>m. property m ''__typename'' = ActionExecutionMessageOutput
                \<and> property m ''name'' = property actionMessage ''name'')
       (map snd (messageStore reg))"

definition createdTime :: "(json \<Rightarrow> int option) \<Rightarrow> json \<Rightarrow> int option" where
  "createdTime getTime a = getTime (property a ''createdAt'')"

text \<open>The time of a message whose date is valid; it is read of no other message.\<close>

definition timeKey :: "(json \<Rightarrow> int option) \<Rightarrow> json \<Rightarrow> int" where
  "timeKey getTime a = (case createdTime getTime a of None \<Rightarrow> 0 | Some t \<Rightarrow> t)"

text \<open>
  The \<^verbatim>\<open>sort\<close> call.  The comparator is the difference of the two times, which is
  \<^verbatim>\<open>NaN\<close> when one of them is, and \<^verbatim>\<open>Array.prototype.sort\<close> reads \<^verbatim>\<open>NaN\<close>
  as \<open>0\<close>.  The language defines the result for a consistent comparator only, and then
  as the stable sort:
  \<^item> when every date is valid, the comparator is consistent and the result is the stable
    ascending sort by time, which \<open>sort_key\<close> is;
  \<^item> when some date is invalid and no two valid dates differ, every two elements compare
    as equal, and the stable sort leaves the array as it is;
  \<^item> when some date is invalid and two valid dates differ, the comparator is not
    consistent (the invalid date equals both, which differ) and the order is left to the
    implementation: the result is \<open>None\<close>.
\<close>

definition sameNameActions :: "(json \<Rightarrow> int option) \<Rightarrow> registry \<Rightarrow> json \<Rightarrow> json list option" where
  "sameNameActions getTime reg actionMessage =
     (let candidates = storedActionsNamed reg actionMessage;
          times = map (createdTime getTime) candidates
      in if list_all (\<lambda>t. t \<noteq> None) times
         then Some (sort_key (timeKey getTime) candidates)
         else if length (remdups (filter (\<lambda>t. t \<noteq> None) times)) \<le> 1
         then Some candidates
         else None)"

text \<open>
  Reading the element before the first of an empty array gives \<^verbatim>\<open>undefined\<close>, and
  \<^verbatim>\<open>?.id\<close> of that is \<^verbatim>\<open>undefined\<close>.  The result is \<open>None\<close> where the order of
  the sorted array, and with it the result, is left to the implementation.
\<close>

definition shouldRenderAction :: "(json \<Rightarrow> int option) \<Rightarrow> registry \<Rightarrow> json \<Rightarrow> bool option" where
  "shouldRenderAction getTime reg actionMessage =
     (if property actionMessage ''__typename'' \<noteq> ActionExecutionMessageOutput then Some True
      else
        (case sameNameActions getTime reg actionMessage of
           None \<Rightarrow> None
         | Some same \<Rightarrow>
             let latestAction = (if same = [] then JUndefined else same ! (length same - 1))
             in Some (property actionMessage ''id'' = property latestAction ''id'')))"

definition resetAguiMessageRegistry :: "registry \<Rightarrow> registry" where
  "resetAguiMessageRegistry reg =
     reg\<lparr>messageStore := [], messagesByType := [], actionExecutionMessages := []\<rparr>"

definition storeMessage :: "json \<Rightarrow> registry \<Rightarrow> registry" where
  "storeMessage message reg =
     (let store = AList.update (property message ''id'') message (messageStore reg);
          byType = (if map_of (messagesByType reg) (property message ''__typename'') = None
                    then AList.update (property message ''__typename'') [] (messagesByType reg)
                    else messagesByType reg);
          byType = AList.map_entry (property message ''__typename'') (set_add (property message ''id'')) byType;
          actions = (if property message ''__typename'' = ActionExecutionMessageOutput
                        \<and> truthy (property message ''name'')
                     then AList.update (property message ''name'') message (actionExecutionMessages reg)
                     else actionExecutionMessages reg)
      in reg\<lparr>messageStore := store, messagesByType := byType, actionExecutionMessages := actions,
             notified := notified reg @ map (\<lambda>callback. (callback, message)) (subscribers reg)\<rparr>)"

subsection \<open>The payload interpreter\<close>

text \<open>
  \<^verbatim>\<open>type MessageIndexTracker = Map<number, string>\<close>, one for each record; the functions
  below use nothing else of the \<^verbatim>\<open>ParsingContext\<close>.  The state they work on is the
  registry together with the tracker of the record.
\<close>

type_synonym MessageIndexTracker = "int \<Rightarrow> string option"

type_synonym interp = "registry \<times> MessageIndexTracker"

definition messagePathIdx :: "json list \<Rightarrow> nat option" where
  "messagePathIdx path = findIndex (\<lambda>segment. segment = JStr ''messages'') path"

definition getMessageIndexFromPath :: "json \<Rightarrow> int option" where
  "getMessageIndexFromPath path =
     (case path of
        JArr segments \<Rightarrow>
          (case messagePathIdx segments of
             None \<Rightarrow> None
           | Some i \<Rightarrow> (case at segments (i + 1) of JNum idx \<Rightarrow> Some idx | _ \<Rightarrow> None))
      | _ \<Rightarrow> None)"

definition getFieldFromPath :: "json list \<Rightarrow> string option" where
  "getFieldFromPath path =
     (case messagePathIdx path of
        None \<Rightarrow> None
      | Some i \<Rightarrow> (case at path (i + 2) of JStr field \<Rightarrow> Some field | _ \<Rightarrow> None))"

definition getArrayIndexFromPath :: "json list \<Rightarrow> int option" where
  "getArrayIndexFromPath path =
     (case messagePathIdx path of
        None \<Rightarrow> None
      | Some i \<Rightarrow> (case at path (i + 3) of JNum index \<Rightarrow> Some index | _ \<Rightarrow> None))"

definition isMessageObject :: "json \<Rightarrow> bool" where
  "isMessageObject v \<longleftrightarrow>
     truthy v \<and> isObjectType v \<and> isString (property v ''__typename'') \<and> isString (property v ''id'')"

text \<open>
  \<^verbatim>\<open>updateArrayField\<close>: a copy of the array, or the empty array when the field holds no
  array, with \<^verbatim>\<open>next[index] = value\<close>.  An index from \<open>0\<close> up to \<open>2^32 - 2\<close> is an
  array index: the assignment replaces the element, or lengthens the array and leaves
  holes.  Any other number names an ordinary property of the array object and the elements
  stay as they are.
\<close>

definition assignIndex :: "json list \<Rightarrow> int \<Rightarrow> json \<Rightarrow> json list" where
  "assignIndex next index v =
     (if 0 \<le> index \<and> index < 2 ^ 32 - 1 then
        (if nat index < length next then next[nat index := v]
         else next @ replicate (nat index - length next) JUndefined @ [v])
      else next)"

definition updateArrayField :: "json \<Rightarrow> int \<Rightarrow> string \<Rightarrow> json" where
  "updateArrayField existing index v =
     (let next = (case existing of JArr xs \<Rightarrow> xs | _ \<Rightarrow> [])
      in JArr (assignIndex next index (JStr v)))"

text \<open>
  The object \<^verbatim>\<open>updated\<close> of \<^verbatim>\<open>applyArrayFieldUpdate\<close>:
  \<^verbatim>\<open>{ ...current, [field]: updateArrayField(current[field], arrayIdx, item) }\<close>.
\<close>

definition patchedMessage :: "json \<Rightarrow> string \<Rightarrow> int \<Rightarrow> string \<Rightarrow> json" where
  "patchedMessage current field arrayIdx item =
     JObj (AList.update field (updateArrayField (property current field) arrayIdx item)
             (spread current))"

text \<open>
  The object \<^verbatim>\<open>updated\<close> of \<^verbatim>\<open>handleIncrementalData\<close>:
  \<^verbatim>\<open>{ ...current, ...inc.data, id: current.id, __typename: current.__typename }\<close>.
\<close>

definition mergedMessage :: "json \<Rightarrow> json \<Rightarrow> json" where
  "mergedMessage current data =
     JObj (AList.update ''__typename'' (property current ''__typename'')
             (AList.update ''id'' (property current ''id'')
                (AList.merge (spread current) (spread data))))"

definition applyArrayFieldUpdate :: "json \<Rightarrow> string \<Rightarrow> interp \<Rightarrow> interp" where
  "applyArrayFieldUpdate inc item ctx =
     (let reg = fst ctx; tracker = snd ctx in
      case property inc ''path'' of
        JArr path \<Rightarrow>
          (case getMessageIndexFromPath (JArr path) of
             None \<Rightarrow> ctx
           | Some messageIdx \<Rightarrow>
               (case (getFieldFromPath path, getArrayIndexFromPath path) of
                  (Some field, Some arrayIdx) \<Rightarrow>
                    if field = [] then ctx
                    else if field \<noteq> ''arguments'' \<and> field \<noteq> ''content'' then ctx
                    else
                      (case tracker messageIdx of
                         None \<Rightarrow> ctx
                       | Some messageId \<Rightarrow>
                           if messageId = [] then ctx
                           else
                             let current = map_get (messageStore reg) (JStr messageId) in
                             if \<not> truthy current then ctx
                             else
                               let updated = patchedMessage current field arrayIdx item
                               in (storeMessage updated reg, tracker))
                | _ \<Rightarrow> ctx))
      | _ \<Rightarrow> ctx)"

definition handleIncrementalData :: "json \<Rightarrow> interp \<Rightarrow> interp" where
  "handleIncrementalData inc ctx =
     (let reg = fst ctx; tracker = snd ctx in
      case getMessageIndexFromPath (property inc ''path'') of
        None \<Rightarrow> ctx
      | Some messageIdx \<Rightarrow>
          (case tracker messageIdx of
             None \<Rightarrow> ctx
           | Some messageId \<Rightarrow>
               if messageId = [] then ctx
               else
                 let current = map_get (messageStore reg) (JStr messageId) in
                 if \<not> truthy current then ctx
                 else
                   let updated = mergedMessage current (property inc ''data'')
                   in (storeMessage updated reg, tracker)))"

definition handleIncrementalItem :: "json \<Rightarrow> interp \<Rightarrow> json \<Rightarrow> interp" where
  "handleIncrementalItem inc ctx item =
     (if isMessageObject item then
        (let reg = storeMessage item (fst ctx) in
         case getMessageIndexFromPath (property inc ''path'') of
           None \<Rightarrow> (reg, snd ctx)
         | Some messageIdx \<Rightarrow>
             (reg, (snd ctx)(messageIdx \<mapsto> (case property item ''id'' of JStr s \<Rightarrow> s | _ \<Rightarrow> []))))
      else (case item of JStr s \<Rightarrow> applyArrayFieldUpdate inc s ctx | _ \<Rightarrow> ctx))"

definition handleIncrementalItems :: "json \<Rightarrow> interp \<Rightarrow> interp" where
  "handleIncrementalItems inc ctx =
     (case property inc ''items'' of JArr items \<Rightarrow> foldl (handleIncrementalItem inc) ctx items | _ \<Rightarrow> ctx)"

text \<open>
  \<^verbatim>\<open>incremental.forEach\<close> exists only on an array: on any other truthy value the call
  throws a \<^verbatim>\<open>TypeError\<close>, which \<^verbatim>\<open>processChunk\<close> catches and logs.  What the registry
  has stored by then stays, so the result is the exception, if any, with the state reached.
\<close>

datatype error = TypeError

definition processIncrementalEntry :: "interp \<Rightarrow> json \<Rightarrow> interp" where
  "processIncrementalEntry ctx inc =
     (if \<not> truthy inc then ctx
      else
        let ctx = (if isArray (property inc ''items'') then handleIncrementalItems inc ctx else ctx)
        in if truthy (property inc ''data'') then handleIncrementalData inc ctx else ctx)"

definition processIncrementalPayload :: "json \<Rightarrow> interp \<Rightarrow> error option \<times> interp" where
  "processIncrementalPayload incremental ctx =
     (case incremental of
        JArr incs \<Rightarrow> (None, foldl processIncrementalEntry ctx incs)
      | _ \<Rightarrow> (Some TypeError, ctx))"

text \<open>The test \<^verbatim>\<open>message && message.__typename && message.id\<close> of \<^verbatim>\<open>processDataPayload\<close>.\<close>

definition hasTypeAndId :: "json \<Rightarrow> bool" where
  "hasTypeAndId message \<longleftrightarrow>
     truthy message \<and> truthy (property message ''__typename'') \<and> truthy (property message ''id'')"

definition processDataMessage :: "registry \<Rightarrow> json \<Rightarrow> registry" where
  "processDataMessage reg message =
     (if hasTypeAndId message then storeMessage message reg else reg)"

definition processDataPayload :: "json \<Rightarrow> registry \<Rightarrow> registry" where
  "processDataPayload data reg =
     (let response = property data ''generateCopilotResponse'' in
      if \<not> truthy response then reg
      else (case property response ''messages'' of
              JArr messages \<Rightarrow> foldl processDataMessage reg messages
            | _ \<Rightarrow> reg))"

definition processPayload :: "json \<Rightarrow> interp \<Rightarrow> error option \<times> interp" where
  "processPayload payload ctx =
     (let ctx = (if truthy (property payload ''data'')
                 then (processDataPayload (property payload ''data'') (fst ctx), snd ctx) else ctx)
      in if truthy (property payload ''incremental'')
         then processIncrementalPayload (property payload ''incremental'') ctx
         else (None, ctx))"

text \<open>
  The parsed payloads of a record, one after the other, as \<^verbatim>\<open>processChunk\<close> hands them
  over; an exception ends the payload that raised it and the next one goes on.
\<close>

definition processPayloads :: "json list \<Rightarrow> interp \<Rightarrow> interp" where
  "processPayloads payloads ctx = foldl (\<lambda>c payload. snd (processPayload payload c)) ctx payloads"

subsection \<open>Notions the properties are stated with\<close>

text \<open>
  The calls \<^verbatim>\<open>storeMessage\<close> makes to the subscribers are the entries it appends to
  \<open>notified\<close>.
\<close>

definition callsOf :: "json \<Rightarrow> registry \<Rightarrow> (MessageSubscriber \<times> json) list" where
  "callsOf message reg = drop (length (notified reg)) (notified (storeMessage message reg))"

text \<open>Every id filed under a type name in \<open>r\<close> is filed under it in \<open>r'\<close>.\<close>

definition byTypeKept :: "registry \<Rightarrow> registry \<Rightarrow> bool" where
  "byTypeKept r r' \<longleftrightarrow>
     (\<forall>T ids. map_of (messagesByType r) T = Some ids \<longrightarrow>
        (\<exists>ids'. map_of (messagesByType r') T = Some ids' \<and> set ids \<subseteq> set ids'))"

text \<open>A run of calls of \<^verbatim>\<open>storeMessage\<close>.\<close>

definition storeAll :: "json list \<Rightarrow> registry \<Rightarrow> registry" where
  "storeAll messages reg = foldl (\<lambda>r message. storeMessage message r) reg messages"

text \<open>
  What \<^verbatim>\<open>new Date(v).getTime()\<close> is on four ISO timestamps, one second apart from
  the epoch on, and on \<^verbatim>\<open>undefined\<close>; the examples use no other value.
\<close>

definition sample_getTime :: "json \<Rightarrow> int option" where
  "sample_getTime v =
     (if v = JStr ''1970-01-01T00:00:01.000Z'' then Some 1000
      else if v = JStr ''1970-01-01T00:00:02.000Z'' then Some 2000
      else if v = JStr ''1970-01-01T00:00:03.000Z'' then Some 3000
      else if v = JStr ''1970-01-01T00:00:04.000Z'' then Some 4000
      else None)"

definition sample_action :: "string \<Rightarrow> string \<Rightarrow> string \<Rightarrow> json" where
  "sample_action ident name createdAt =
     JObj [(''__typename'', ActionExecutionMessageOutput), (''id'', JStr ident),
           (''createdAt'', JStr createdAt), (''name'', JStr name)]"

definition sample_text :: "string \<Rightarrow> json" where
  "sample_text ident =
     JObj [(''__typename'', JStr ''TextMessageOutput''), (''id'', JStr ident),
           (''createdAt'', JStr ''1970-01-01T00:00:01.000Z''), (''content'', JArr [JStr ''hi''])]"

text \<open>An action message of the name \<open>n\<close>, as \<^verbatim>\<open>storeMessage\<close> tests it.\<close>

definition isActionNamed :: "string \<Rightarrow> json \<Rightarrow> bool" where
  "isActionNamed n m \<longleftrightarrow>
     property m ''__typename'' = ActionExecutionMessageOutput \<and> property m ''name'' = JStr n"

text \<open>
  \<open>storeSteps r r'\<close>: the registry \<open>r'\<close> comes from \<open>r\<close> by calls of
  \<^verbatim>\<open>storeMessage\<close>, which is how every function of the interpreter changes the registry.
\<close>

inductive storeSteps :: "registry \<Rightarrow> registry \<Rightarrow> bool" where
  same: "storeSteps r r"
| step: "storeSteps r r' \<Longrightarrow> storeSteps r (storeMessage m r')"

text \<open>A snapshot payload: \<^verbatim>\<open>{ data: { generateCopilotResponse: { messages } } }\<close>.\<close>

definition snapshot :: "json list \<Rightarrow> json" where
  "snapshot messages =
     JObj [(''data'', JObj [(''generateCopilotResponse'', JObj [(''messages'', JArr messages)])])]"

text \<open>An incremental payload: \<^verbatim>\<open>{ incremental: [...] }\<close>.\<close>

definition incrementalPayload :: "json list \<Rightarrow> json" where
  "incrementalPayload incs = JObj [(''incremental'', JArr incs)]"

definition no_tracker :: MessageIndexTracker where
  "no_tracker = (\<lambda>i. None)"

text \<open>
  Sample incremental entries for the message index \<open>0\<close>: a data patch, and an items entry
  that brings a message.
\<close>

definition sample_path :: "json list" where
  "sample_path = [JStr ''generateCopilotResponse'', JStr ''messages'', JNum 0]"

definition sample_patch :: json where
  "sample_patch = JObj [(''path'', JArr sample_path),
     (''data'', JObj [(''role'', JStr ''assistant''), (''id'', JStr ''other'')])]"

definition sample_items :: "json \<Rightarrow> json" where
  "sample_items m = JObj [(''path'', JArr sample_path), (''items'', JArr [m])]"

text \<open>
  The entry \<open>inc\<close> has a path that gives the message index \<open>k\<close>, the field name
  \<open>field\<close> and the array index \<open>i\<close>; a path \<^verbatim>\<open>[..., "messages", k, field, i]\<close> does.
\<close>

definition addresses :: "json \<Rightarrow> int \<Rightarrow> string \<Rightarrow> int \<Rightarrow> bool" where
  "addresses inc k field i \<longleftrightarrow>
     (\<exists>path. property inc ''path'' = JArr path \<and> getMessageIndexFromPath (JArr path) = Some k
        \<and> getFieldFromPath path = Some field \<and> getArrayIndexFromPath path = Some i)"

text \<open>An items entry that brings one string for \<^verbatim>\<open>content[i]\<close> of the message at index \<open>0\<close>.\<close>

definition sample_segment :: "int \<Rightarrow> string \<Rightarrow> json" where
  "sample_segment i s =
     JObj [(''path'', JArr (sample_path @ [JStr ''content'', JNum i])), (''items'', JArr [JStr s])]"

text \<open>A text message that has no \<^verbatim>\<open>content\<close> yet.\<close>

definition sample_bare :: json where
  "sample_bare = JObj [(''__typename'', JStr ''TextMessageOutput''), (''id'', JStr ''m1''),
     (''createdAt'', JStr ''1970-01-01T00:00:01.000Z'')]"

text \<open>Every record of the store has, as its \<^verbatim>\<open>id\<close>, the key it is stored under.\<close>

definition storeKeyed :: "registry \<Rightarrow> bool" where
  "storeKeyed r \<longleftrightarrow> (\<forall>k m. map_of (messageStore r) k = Some m \<longrightarrow> property m ''id'' = k)"

text \<open>
  Every key of the store of \<open>r\<close> is a key of the store of \<open>r'\<close>, and the record under it
  has the \<^verbatim>\<open>id\<close> and the \<^verbatim>\<open>__typename\<close> it had.
\<close>

definition kindsKept :: "registry \<Rightarrow> registry \<Rightarrow> bool" where
  "kindsKept r r' \<longleftrightarrow>
     (\<forall>k m. map_of (messageStore r) k = Some m \<longrightarrow>
        (\<exists>m'. map_of (messageStore r') k = Some m' \<and> property m' ''id'' = property m ''id''
            \<and> property m' ''__typename'' = property m ''__typename''))"

text \<open>
  An incremental entry that brings no message: its \<^verbatim>\<open>items\<close>, if it has any, are strings
  for an array field or values the interpreter skips, so that it can only be a data merge
  and array-field patches.
\<close>

definition patchOnly :: "json \<Rightarrow> bool" where
  "patchOnly inc \<longleftrightarrow>
     (case property inc ''items'' of JArr items \<Rightarrow> list_all (\<lambda>item. \<not> isMessageObject item) items
      | _ \<Rightarrow> True)"

text \<open>
  A payload of patches: it has no snapshot part, and the entries of its incremental part,
  if it is an array, bring no message.
\<close>

definition patchPayload :: "json \<Rightarrow> bool" where
  "patchPayload payload \<longleftrightarrow>
     \<not> truthy (property payload ''data'')
     \<and> (case property payload ''incremental'' of JArr incs \<Rightarrow> list_all patchOnly incs | _ \<Rightarrow> True)"

text \<open>
  \<open>x\<close> is an action message of the name of \<open>m\<close>: the messages
  \<^verbatim>\<open>shouldRenderAction(m)\<close> is to choose among, when they are in the store.
\<close>

definition sameNamedAction :: "json \<Rightarrow> json \<Rightarrow> bool" where
  "sameNamedAction m x \<longleftrightarrow>
     property x ''__typename'' = ActionExecutionMessageOutput
     \<and> property x ''name'' = property m ''name''"

text \<open>
  A store for the examples: three actions named \<^verbatim>\<open>search\<close>, stored out of the order of
  their dates, a text message, and an action named \<^verbatim>\<open>lookup\<close> of a later date than all
  of them.
\<close>

definition sample_store :: registry where
  "sample_store = storeAll
     [sample_action ''s3'' ''search'' ''1970-01-01T00:00:03.000Z'', sample_text ''t1'',
      sample_action ''s1'' ''search'' ''1970-01-01T00:00:01.000Z'',
      sample_action ''l4'' ''lookup'' ''1970-01-01T00:00:04.000Z'',
      sample_action ''s2'' ''search'' ''1970-01-01T00:00:02.000Z''] empty_registry"

text \<open>An action message that has no \<^verbatim>\<open>createdAt\<close>.\<close>

definition sample_undated :: "string \<Rightarrow> string \<Rightarrow> json" where
  "sample_undated ident name =
     JObj [(''__typename'', ActionExecutionMessageOutput), (''id'', JStr ident), (''name'', JStr name)]"

section \<open>Properties of the extractor\<close>

lemma scanChar_payloads:
  "scanChar (ps, st) c = (ps @ fst (scanChar ([], st) c), snd (scanChar ([], st) c))"
  by (simp add: scanChar_def Let_def)

lemma foldl_scanChar_payloads:
  "foldl scanChar (ps, st) t = (ps @ fst (foldl scanChar ([], st) t), snd (foldl scanChar ([], st) t))"
proof (induction t arbitrary: ps st)
  case Nil
  show ?case by simp
next
  case (Cons c t)
  obtain qs st' where step: "scanChar ([], st) c = (qs, st')"
    by (cases "scanChar ([], st) c")
  have "scanChar (ps, st) c = (ps @ qs, st')"
    using scanChar_payloads [of ps st c] step by simp
  then show ?case
    using Cons.IH [of "ps @ qs" st'] Cons.IH [of qs st'] step by simp
qed

lemma extractJsonPayloads_append:
  "extractJsonPayloads (a @ b) st =
     (fst (extractJsonPayloads a st) @ fst (extractJsonPayloads b (snd (extractJsonPayloads a st))),
      snd (extractJsonPayloads b (snd (extractJsonPayloads a st))))"
proof -
  obtain ps st' where a: "foldl scanChar ([], st) a = (ps, st')"
    by (cases "foldl scanChar ([], st) a")
  show ?thesis
    using foldl_scanChar_payloads [of ps st' b] a by (simp add: extractJsonPayloads_def)
qed

lemma feedChunks_concat:
  "feedChunks chunks st = extractJsonPayloads (concat chunks) st"
proof (induction chunks arbitrary: st)
  case Nil
  show ?case by (simp add: extractJsonPayloads_def)
next
  case (Cons c cs)
  show ?case
    by (simp add: Let_def Cons.IH extractJsonPayloads_append)
qed

lemma inert_Nil: "inert []"
  by (simp add: inert_def)

lemma inert_append: "inert a \<Longrightarrow> inert b \<Longrightarrow> inert (a @ b)"
  by (simp add: inert_def)

lemma inert_plain: "plain c \<Longrightarrow> inert [c]"
  by (simp add: inert_def plain_def scanChar_def Let_def)

lemma inert_all_plain: "list_all plain t \<Longrightarrow> inert t"
proof (induction t)
  case Nil
  show ?case by (rule inert_Nil)
next
  case (Cons c t)
  then have "inert ([c] @ t)"
    by (intro inert_append inert_plain) simp_all
  then show ?case by simp
qed

lemma scan_string_body:
  "string_body b \<Longrightarrow> 0 < depth st \<Longrightarrow> inString st \<Longrightarrow> \<not> escaping st \<Longrightarrow>
     foldl scanChar (ps, st) b = (ps, st\<lparr>buffer := buffer st @ b\<rparr>)"
proof (induction b arbitrary: st rule: string_body.induct)
  case body_end
  show ?case by simp
next
  case (body_char c s)
  have "scanChar (ps, st) c = (ps, st\<lparr>buffer := buffer st @ [c]\<rparr>)"
    using body_char.hyps(1,2) body_char.prems by (simp add: scanChar_def Let_def)
  then show ?case
    using body_char.IH [of "st\<lparr>buffer := buffer st @ [c]\<rparr>"] body_char.prems by simp
next
  case (body_escape e s)
  have "foldl scanChar (ps, st) [backslash, e] = (ps, st\<lparr>buffer := buffer st @ [backslash, e]\<rparr>)"
    using body_escape.prems by (simp add: scanChar_def Let_def)
  then show ?case
    using body_escape.IH [of "st\<lparr>buffer := buffer st @ [backslash, e]\<rparr>"] body_escape.prems by simp
next
  case (body_unicode h1 h2 h3 h4 s)
  have h: "\<And>h. hexdigit h \<Longrightarrow> plain h"
    by (auto simp: hexdigit_def plain_def)
  have "foldl scanChar (ps, st) [backslash, CHR ''u'', h1, h2, h3, h4]
      = (ps, st\<lparr>buffer := buffer st @ [backslash, CHR ''u'', h1, h2, h3, h4]\<rparr>)"
    using body_unicode.prems h [OF body_unicode.hyps(1)] h [OF body_unicode.hyps(2)]
      h [OF body_unicode.hyps(3)] h [OF body_unicode.hyps(4)]
    by (simp add: scanChar_def Let_def plain_def)
  then show ?case
    using body_unicode.IH [of "st\<lparr>buffer := buffer st @ [backslash, CHR ''u'', h1, h2, h3, h4]\<rparr>"]
      body_unicode.prems by simp
qed

lemma inert_json_string: "json_string s \<Longrightarrow> inert s"
proof -
  assume "json_string s"
  then obtain b where b: "string_body b" and s: "s = dquote # b @ [dquote]"
    by (auto simp: json_string_def)
  show "inert s"
    unfolding inert_def
  proof (intro allI impI)
    fix ps and st :: ChunkParserState
    assume d: "0 < depth st" and i: "\<not> inString st" and e: "\<not> escaping st"
    let ?st1 = "st\<lparr>buffer := buffer st @ [dquote], inString := True\<rparr>"
    have 1: "scanChar (ps, st) dquote = (ps, ?st1)"
      using d i e by (simp add: scanChar_def Let_def)
    have 2: "foldl scanChar (ps, ?st1) b = (ps, ?st1\<lparr>buffer := buffer ?st1 @ b\<rparr>)"
      using scan_string_body [OF b, of ?st1 ps] d e by simp
    have 3: "scanChar (ps, ?st1\<lparr>buffer := buffer ?st1 @ b\<rparr>) dquote
        = (ps, st\<lparr>buffer := buffer st @ s\<rparr>)"
      using d i e by (simp add: scanChar_def Let_def s)
    show "foldl scanChar (ps, st) s = (ps, st\<lparr>buffer := buffer st @ s\<rparr>)"
      using 1 2 3 by (simp add: s)
  qed
qed

lemma inert_braces: "inert t \<Longrightarrow> inert (CHR ''{'' # t @ ''}'')"
  unfolding inert_def
proof (intro allI impI)
  fix ps and st :: ChunkParserState
  assume t: "\<forall>ps st. 0 < depth st \<longrightarrow> \<not> inString st \<longrightarrow> \<not> escaping st \<longrightarrow>
     foldl scanChar (ps, st) t = (ps, st\<lparr>buffer := buffer st @ t\<rparr>)"
    and d: "0 < depth st" and i: "\<not> inString st" and e: "\<not> escaping st"
  let ?st1 = "st\<lparr>buffer := buffer st @ ''{'', depth := depth st + 1\<rparr>"
  have 1: "scanChar (ps, st) CHR ''{'' = (ps, ?st1)"
    using d i e by (simp add: scanChar_def Let_def)
  have 2: "foldl scanChar (ps, ?st1) t = (ps, ?st1\<lparr>buffer := buffer ?st1 @ t\<rparr>)"
    using t d i e by simp
  have 3: "scanChar (ps, ?st1\<lparr>buffer := buffer ?st1 @ t\<rparr>) CHR ''}''
      = (ps, st\<lparr>buffer := buffer st @ CHR ''{'' # t @ ''}''\<rparr>)"
    using d i e by (simp add: scanChar_def Let_def)
  show "foldl scanChar (ps, st) (CHR ''{'' # t @ ''}'') = (ps, st\<lparr>buffer := buffer st @ CHR ''{'' # t @ ''}''\<rparr>)"
    using 1 2 3 by simp
qed

lemma plain_ws: "ws w \<Longrightarrow> list_all plain w"
  unfolding ws_def by (induction w) (auto simp: ws_char_def plain_def)

lemma inert_ws: "ws w \<Longrightarrow> inert w"
  by (rule inert_all_plain) (rule plain_ws)

lemma plain_digits: "list_all digit ds \<Longrightarrow> list_all plain ds"
  by (induction ds) (auto simp: digit_def plain_def)

lemma plain_json_number: "json_number s \<Longrightarrow> list_all plain s"
  by (auto simp: json_number_def json_int_def json_frac_def json_exp_def digits_def
      plain_digits plain_def)

lemma inert_json_number: "json_number s \<Longrightarrow> inert s"
  by (rule inert_all_plain) (rule plain_json_number)

lemma inert_literals: "inert ''null''" "inert ''true''" "inert ''false''"
  "inert ''[''" "inert '']''" "inert '':''" "inert '',''"
  by (rule inert_all_plain, simp add: plain_def)+

lemma inert_Cons: "plain c \<Longrightarrow> inert t \<Longrightarrow> inert (c # t)"
  using inert_append [OF inert_plain, of c t] by simp

lemma inert_json:
  shows "json_value s \<Longrightarrow> inert s" and "json_object s \<Longrightarrow> inert s"
    and "json_members s \<Longrightarrow> inert s" and "json_elements s \<Longrightarrow> inert s"
proof (induction rule: json_value_json_object_json_members_json_elements.inducts)
  case value_null
  show ?case by (rule inert_all_plain) (simp add: plain_def)
next
  case value_true
  show ?case by (rule inert_all_plain) (simp add: plain_def)
next
  case value_false
  show ?case by (rule inert_all_plain) (simp add: plain_def)
next
  case (value_number s)
  then show ?case by (rule inert_json_number)
next
  case (value_string s)
  then show ?case by (rule inert_json_string)
next
  case (value_object s)
  then show ?case by simp
next
  case (value_array_empty w)
  have "inert (CHR ''['' # w @ '']'')"
    by (intro inert_Cons inert_append inert_ws value_array_empty inert_Nil) (simp_all add: plain_def)
  then show ?case by simp
next
  case (value_array es)
  have "inert (CHR ''['' # es @ '']'')"
    by (intro inert_Cons inert_append value_array.IH inert_Nil) (simp_all add: plain_def)
  then show ?case by simp
next
  case (object_empty w)
  then show ?case using inert_braces [OF inert_ws, of w] by simp
next
  case (object_members ms)
  then show ?case using inert_braces [of ms] by simp
next
  case (member_one w1 k w2 w3 v w4)
  have "inert (w1 @ k @ w2 @ CHR '':'' # w3 @ v @ w4)"
    using member_one inert_ws inert_json_string
    by (intro inert_Cons inert_append) (simp_all add: plain_def)
  then show ?case by simp
next
  case (member_more w1 k w2 w3 v w4 ms)
  have "inert (w1 @ k @ w2 @ CHR '':'' # w3 @ v @ w4 @ CHR '','' # ms)"
    using member_more inert_ws inert_json_string
    by (intro inert_Cons inert_append) (simp_all add: plain_def)
  then show ?case by simp
next
  case (element_one w1 v w2)
  then show ?case using inert_ws by (intro inert_append) simp_all
next
  case (element_more w1 v w2 es)
  have "inert (w1 @ v @ w2 @ CHR '','' # es)"
    using element_more inert_ws
    by (intro inert_Cons inert_append) (simp_all add: plain_def)
  then show ?case by simp
qed

lemma json_object_shape:
  "json_object s \<Longrightarrow> \<exists>t. inert t \<and> s = CHR ''{'' # t @ ''}''"
  by (erule json_object.cases) (auto intro: inert_ws inert_json(3))

lemma extract_top_level:
  assumes "inert t"
  shows "extractJsonPayloads (CHR ''{'' # t @ ''}'') getParserState_fresh
    = ([CHR ''{'' # t @ ''}''], getParserState_fresh)"
proof -
  let ?st1 = "getParserState_fresh\<lparr>buffer := ''{'', depth := 1\<rparr>"
  have 1: "scanChar ([], getParserState_fresh) CHR ''{'' = ([], ?st1)"
    by (simp add: scanChar_def getParserState_fresh_def)
  have 2: "foldl scanChar ([], ?st1) t = ([], ?st1\<lparr>buffer := buffer ?st1 @ t\<rparr>)"
    using assms by (simp add: inert_def getParserState_fresh_def)
  have 3: "scanChar ([], ?st1\<lparr>buffer := buffer ?st1 @ t\<rparr>) CHR ''}''
      = ([CHR ''{'' # t @ ''}''], getParserState_fresh)"
    by (simp add: scanChar_def Let_def getParserState_fresh_def)
  show ?thesis
    using 1 2 3 by (simp add: extractJsonPayloads_def)
qed

lemma extract_json_object:
  "json_object s \<Longrightarrow> extractJsonPayloads s getParserState_fresh = ([s], getParserState_fresh)"
  using json_object_shape [of s] extract_top_level by auto

lemma extract_bounded:
  "extractJsonPayloads p getParserState_fresh = (ps, st) \<Longrightarrow>
     length (buffer st) \<le> length p \<and> (\<forall>x \<in> set ps. length x \<le> length p)"
proof (induction p arbitrary: ps st rule: rev_induct)
  case Nil
  then show ?case by (auto simp: extractJsonPayloads_def getParserState_fresh_def)
next
  case (snoc c p)
  obtain qs st' where p: "extractJsonPayloads p getParserState_fresh = (qs, st')"
    by (cases "extractJsonPayloads p getParserState_fresh")
  have step: "scanChar (qs, st') c = (ps, st)"
    using snoc.prems p by (simp add: extractJsonPayloads_def)
  have ih: "length (buffer st') \<le> length p" "\<And>x. x \<in> set qs \<Longrightarrow> length x \<le> Suc (length p)"
    using snoc.IH [OF p] by (simp, fastforce)
  show ?case
    using step ih by (auto simp: scanChar_def Let_def split: if_splits)
qed

lemma extract_proper_prefix:
  assumes "json_object s" and "s = p @ q" and "q \<noteq> []"
  shows "fst (extractJsonPayloads p getParserState_fresh) = []"
proof (rule ccontr)
  assume ne: "fst (extractJsonPayloads p getParserState_fresh) \<noteq> []"
  obtain ps st where p: "extractJsonPayloads p getParserState_fresh = (ps, st)"
    by (cases "extractJsonPayloads p getParserState_fresh")
  have "ps @ fst (extractJsonPayloads q st) = [s]"
    using extract_json_object [OF assms(1)] extractJsonPayloads_append [of p q getParserState_fresh]
      p assms(2) by simp
  then have "s \<in> set ps"
    using ne p by (cases ps) auto
  then have "length s \<le> length p"
    using extract_bounded [OF p] by blast
  then show False
    using assms(2,3) by simp
qed


lemma ws_Nil: "ws []"
  by (simp add: ws_def)

lemma json_string_a: "json_string [dquote, CHR ''a'', dquote]"
  unfolding json_string_def
  by (rule exI [of _ "''a''"]) (simp add: string_body.intros)

lemma json_string_escaped: "json_string [dquote, CHR ''{'', CHR ''}'', backslash, dquote, dquote]"
  unfolding json_string_def
  by (rule exI [of _ "[CHR ''{'', CHR ''}'', backslash, dquote]"]) (simp add: string_body.intros)

lemma json_object_sample_escaped: "json_object sample_escaped"
proof -
  have "json_members ([] @ [dquote, CHR ''a'', dquote] @ [] @ '':'' @ []
      @ [dquote, CHR ''{'', CHR ''}'', backslash, dquote, dquote] @ [])"
    by (intro member_one ws_Nil json_string_a value_string json_string_escaped)
  then have "json_object (''{'' @ [dquote, CHR ''a'', dquote, CHR '':'', dquote, CHR ''{'', CHR ''}'', backslash, dquote, dquote] @ ''}'')"
    by (intro object_members) simp
  then show ?thesis by (simp add: sample_escaped_def)
qed

lemma json_string_k: "json_string [dquote, CHR ''k'', dquote]"
  unfolding json_string_def
  by (rule exI [of _ "''k''"]) (simp add: string_body.intros)

lemma json_string_m: "json_string [dquote, CHR ''m'', dquote]"
  unfolding json_string_def
  by (rule exI [of _ "''m''"]) (simp add: string_body.intros)

lemma json_string_brace: "json_string [dquote, CHR ''}'', dquote]"
  unfolding json_string_def
  by (rule exI [of _ "''}''"]) (simp add: string_body.intros)

lemma json_number_1: "json_number ''1''"
  unfolding json_number_def
  by (rule exI [of _ "[]"], rule exI [of _ "''1''"], rule exI [of _ "[]"], rule exI [of _ "[]"])
    (simp add: json_int_def json_frac_def json_exp_def digits_def digit_def)

lemma json_object_sample_nested: "json_object sample_nested"
proof -
  have "json_elements ([] @ [dquote, CHR ''}'', dquote] @ [])"
    by (intro element_one ws_Nil value_string json_string_brace)
  then have "json_elements ([] @ ''1'' @ [] @ '','' @ [dquote, CHR ''}'', dquote])"
    by (intro element_more ws_Nil value_number json_number_1) simp
  then have "json_value (''['' @ [CHR ''1'', CHR '','', dquote, CHR ''}'', dquote] @ '']'')"
    by (intro value_array) simp
  then have "json_members ([] @ [dquote, CHR ''m'', dquote] @ [] @ '':'' @ []
      @ [CHR ''['', CHR ''1'', CHR '','', dquote, CHR ''}'', dquote, CHR '']''] @ [])"
    by (intro member_one ws_Nil json_string_m) simp
  then have "json_object (''{'' @ [dquote, CHR ''m'', dquote, CHR '':'',
     CHR ''['', CHR ''1'', CHR '','', dquote, CHR ''}'', dquote, CHR '']''] @ ''}'')"
    by (intro object_members) simp
  then have "json_value [CHR ''{'', dquote, CHR ''m'', dquote, CHR '':'',
     CHR ''['', CHR ''1'', CHR '','', dquote, CHR ''}'', dquote, CHR '']'', CHR ''}'']"
    using value_object by simp
  moreover have "ws '' ''"
    by (simp add: ws_def ws_char_def)
  ultimately have "json_members ([] @ [dquote, CHR ''k'', dquote] @ [] @ '':'' @ '' ''
      @ [CHR ''{'', dquote, CHR ''m'', dquote, CHR '':'',
     CHR ''['', CHR ''1'', CHR '','', dquote, CHR ''}'', dquote, CHR '']'', CHR ''}''] @ [])"
    by (intro member_one ws_Nil json_string_k)
  then have "json_object (''{'' @ [dquote, CHR ''k'', dquote, CHR '':'', CHR '' '', CHR ''{'', dquote, CHR ''m'', dquote, CHR '':'',
     CHR ''['', CHR ''1'', CHR '','', dquote, CHR ''}'', dquote, CHR '']'', CHR ''}''] @ ''}'')"
    by (intro object_members) simp
  then show ?thesis by (simp add: sample_nested_def)
qed

text \<open>
  Claim C2 (chunk-boundary invariance).  Let \<open>S\<close> be a complete JSON object text and
  \<open>chunks\<close> any list of strings whose concatenation is \<open>S\<close> (every partition of
  \<open>S\<close> into non-empty substrings is one).  Scanning the chunks one call after the other,
  the parser state carried from call to call and fresh at the start, pushes exactly the
  one payload \<open>S\<close> and leaves the fresh state, which is what the single call on \<open>S\<close>
  does.
\<close>

theorem chunk_boundary_invariance:
  assumes "json_object S" and "concat chunks = S"
  shows "feedChunks chunks getParserState_fresh = ([S], getParserState_fresh)
       \<and> extractJsonPayloads S getParserState_fresh = ([S], getParserState_fresh)"
  using assms feedChunks_concat [of chunks getParserState_fresh] extract_json_object [of S]
  by simp

theorem chunk_boundary_invariance_witness:
  "json_object sample_nested
   \<and> concat [take 2 sample_nested, take 5 (drop 2 sample_nested), take 9 (drop 7 sample_nested),
        drop 16 sample_nested] = sample_nested
   \<and> feedChunks [take 2 sample_nested, take 5 (drop 2 sample_nested), take 9 (drop 7 sample_nested),
        drop 16 sample_nested] getParserState_fresh = ([sample_nested], getParserState_fresh)
   \<and> extractJsonPayloads sample_nested getParserState_fresh = ([sample_nested], getParserState_fresh)"
proof -
  have c: "concat [take 2 sample_nested, take 5 (drop 2 sample_nested), take 9 (drop 7 sample_nested),
        drop 16 sample_nested] = sample_nested"
    by (simp add: sample_nested_def)
  show ?thesis
    using chunk_boundary_invariance [OF json_object_sample_nested c] json_object_sample_nested c
    by simp
qed

text \<open>
  Claim C5 (string safety).  Every complete JSON object text \<open>S\<close>, whatever braces and
  escaped quotes its string literals hold, is pushed as exactly one payload, equal to
  \<open>S\<close>; and no proper prefix of \<open>S\<close> pushes anything, so the object is neither ended
  early nor split.
\<close>

theorem string_safety:
  assumes "json_object S"
  shows "extractJsonPayloads S getParserState_fresh = ([S], getParserState_fresh)
       \<and> (\<forall>p q. S = p @ q \<longrightarrow> q \<noteq> [] \<longrightarrow> fst (extractJsonPayloads p getParserState_fresh) = [])"
  using extract_json_object [OF assms] extract_proper_prefix [OF assms] by blast

theorem string_safety_witness:
  "json_object sample_escaped
   \<and> extractJsonPayloads sample_escaped getParserState_fresh = ([sample_escaped], getParserState_fresh)
   \<and> fst (extractJsonPayloads (take 8 sample_escaped) getParserState_fresh) = []"
proof -
  have "sample_escaped = take 8 sample_escaped @ drop 8 sample_escaped" "drop 8 sample_escaped \<noteq> []"
    by (simp_all add: sample_escaped_def)
  then show ?thesis
    using string_safety [OF json_object_sample_escaped] json_object_sample_escaped by blast
qed

section \<open>Properties of the registry\<close>

lemma messageStore_storeMessage:
  "messageStore (storeMessage m reg) = AList.update (property m ''id'') m (messageStore reg)"
  by (simp add: storeMessage_def Let_def)

lemma subscribers_storeMessage: "subscribers (storeMessage m reg) = subscribers reg"
  by (simp add: storeMessage_def Let_def)

lemma notified_storeMessage:
  "notified (storeMessage m reg) = notified reg @ map (\<lambda>callback. (callback, m)) (subscribers reg)"
  by (simp add: storeMessage_def Let_def)

lemma actions_storeMessage:
  "actionExecutionMessages (storeMessage m reg) =
     (if property m ''__typename'' = ActionExecutionMessageOutput \<and> truthy (property m ''name'')
      then AList.update (property m ''name'') m (actionExecutionMessages reg)
      else actionExecutionMessages reg)"
  by (simp add: storeMessage_def Let_def)

lemma byType_storeMessage:
  "map_of (messagesByType (storeMessage m reg)) T =
     (if T = property m ''__typename''
      then Some (set_add (property m ''id'')
             (case map_of (messagesByType reg) T of None \<Rightarrow> [] | Some ids \<Rightarrow> ids))
      else map_of (messagesByType reg) T)"
  by (simp add: storeMessage_def Let_def map_of_map_entry update_conv' split: option.splits)

lemma map_get_update:
  "map_get (AList.update k v m) k' = (if k' = k then v else map_get m k')"
  by (simp add: map_get_def update_conv')

lemma callsOf_eq: "callsOf m reg = map (\<lambda>callback. (callback, m)) (subscribers reg)"
  by (simp add: callsOf_def notified_storeMessage)

lemma distinct_set_add: "distinct xs \<Longrightarrow> distinct (set_add x xs)"
  by (simp add: set_add_def)

lemma filter_fst_distinct:
  "distinct xs \<Longrightarrow> x \<in> set xs \<Longrightarrow> filter (\<lambda>c. fst c = x) (map (\<lambda>c. (c, m)) xs) = [(x, m)]"
  by (induction xs) (auto simp: filter_empty_conv)

text \<open>
  Claim C10.  \<^verbatim>\<open>resetAguiMessageRegistry\<close> empties the message store and the two
  indexes and leaves the subscribers as they were.  So a callback subscribed before the
  reset is still a subscriber after it, and the next \<^verbatim>\<open>storeMessage\<close> calls it exactly
  once, with the message stored, and calls nobody with anything else.
\<close>

theorem reset_keeps_subscribers:
  assumes "distinct (subscribers reg)"
  shows "messageStore (resetAguiMessageRegistry reg) = []
       \<and> messagesByType (resetAguiMessageRegistry reg) = []
       \<and> actionExecutionMessages (resetAguiMessageRegistry reg) = []
       \<and> subscribers (resetAguiMessageRegistry reg) = subscribers reg
       \<and> callback \<in> set (subscribers (resetAguiMessageRegistry (subscribeToAguiMessages callback reg)))
       \<and> filter (\<lambda>c. fst c = callback)
            (callsOf message (resetAguiMessageRegistry (subscribeToAguiMessages callback reg)))
          = [(callback, message)]
       \<and> snd ` set (callsOf message (resetAguiMessageRegistry (subscribeToAguiMessages callback reg)))
          = {message}"
proof -
  let ?subs = "set_add callback (subscribers reg)"
  have s: "subscribers (resetAguiMessageRegistry (subscribeToAguiMessages callback reg)) = ?subs"
    by (simp add: resetAguiMessageRegistry_def subscribeToAguiMessages_def)
  have d: "distinct ?subs" and c: "callback \<in> set ?subs"
    using assms by (simp_all add: set_add_def)
  have f: "filter (\<lambda>c. fst c = callback) (map (\<lambda>c. (c, message)) ?subs) = [(callback, message)]"
    by (rule filter_fst_distinct [OF d c])
  have i: "snd ` set (map (\<lambda>c. (c, message)) ?subs) = {message}"
    using c by force
  show ?thesis
    using s c f i by (simp add: callsOf_eq) (simp add: resetAguiMessageRegistry_def)
qed

theorem reset_keeps_subscribers_witness:
  "distinct (subscribers (subscribeToAguiMessages 7 empty_registry))
   \<and> subscribers (resetAguiMessageRegistry (storeMessage (JObj [(''id'', JStr ''m1''), (''__typename'', JStr ''TextMessageOutput'')])
        (subscribeToAguiMessages 7 empty_registry))) = [7]
   \<and> callsOf (JObj [(''id'', JStr ''m2''), (''__typename'', JStr ''TextMessageOutput'')])
        (resetAguiMessageRegistry (subscribeToAguiMessages 7 (subscribeToAguiMessages 7 empty_registry)))
      = [(7, JObj [(''id'', JStr ''m2''), (''__typename'', JStr ''TextMessageOutput'')])]"
proof -
  have d: "distinct (subscribers (subscribeToAguiMessages 7 empty_registry))"
    by (simp add: subscribeToAguiMessages_def empty_registry_def set_add_def)
  show ?thesis
    using reset_keeps_subscribers [OF d, of 7 "JObj [(''id'', JStr ''m2''), (''__typename'', JStr ''TextMessageOutput'')]"]
    by (simp add: callsOf_eq subscribeToAguiMessages_def empty_registry_def set_add_def
        resetAguiMessageRegistry_def subscribers_storeMessage)
qed


lemma property_truthy: "property m k \<noteq> JUndefined \<Longrightarrow> truthy m"
  by (cases m) simp_all

lemma latest_storeMessage:
  "n \<noteq> [] \<Longrightarrow> getLatestActionExecution n (storeMessage m reg) =
     (if isActionNamed n m then m else getLatestActionExecution n reg)"
proof -
  assume n: "n \<noteq> []"
  have t: "isActionNamed n m \<Longrightarrow> truthy m"
    by (rule property_truthy [of m "''name''"]) (simp add: isActionNamed_def)
  show ?thesis
    using n t
    by (auto simp: getLatestActionExecution_def actions_storeMessage map_get_update
        isActionNamed_def Let_def)
qed

lemma latest_storeAll:
  "n \<noteq> [] \<Longrightarrow> filter (isActionNamed n) ms \<noteq> [] \<Longrightarrow>
     getLatestActionExecution n (storeAll ms reg) = last (filter (isActionNamed n) ms)"
proof (induction ms rule: rev_induct)
  case Nil
  then show ?case by simp
next
  case (snoc m ms)
  have "storeAll (ms @ [m]) reg = storeMessage m (storeAll ms reg)"
    by (simp add: storeAll_def)
  then show ?case
    using snoc by (cases "isActionNamed n m") (auto simp: latest_storeMessage)
qed

lemma stale_latest:
  assumes a: "isActionNamed n a" and b: "isActionNamed n b" and n: "n \<noteq> []"
    and ids: "property a ''id'' \<noteq> property b ''id''"
    and ta: "createdTime getTime a = Some ta" and tb: "createdTime getTime b = Some tb"
    and later: "tb < ta"
  shows "getLatestActionExecution n (storeAll [a, b] empty_registry) = b"
    and "shouldRenderAction getTime (storeAll [a, b] empty_registry) b = Some False"
proof -
  show "getLatestActionExecution n (storeAll [a, b] empty_registry) = b"
    using latest_storeAll [OF n, of "[a, b]" empty_registry] a b by simp
  have store: "messageStore (storeAll [a, b] empty_registry)
      = [(property a ''id'', a), (property b ''id'', b)]"
    using ids by (simp add: storeAll_def messageStore_storeMessage empty_registry_def)
  have "storedActionsNamed (storeAll [a, b] empty_registry) b = [a, b]"
    using a b by (simp add: storedActionsNamed_def store isActionNamed_def)
  then have "sameNameActions getTime (storeAll [a, b] empty_registry) b = Some [b, a]"
    using ta tb later by (simp add: sameNameActions_def timeKey_def)
  then show "shouldRenderAction getTime (storeAll [a, b] empty_registry) b = Some False"
    using b ids by (simp add: shouldRenderAction_def isActionNamed_def)
qed

text \<open>
  Claim C8.  After any run of \<^verbatim>\<open>storeMessage\<close> calls,
  \<^verbatim>\<open>getLatestActionExecution(n)\<close> is the last message of the run that is an action
  message named \<open>n\<close>, whatever the \<^verbatim>\<open>createdAt\<close> of the messages.  So when an action
  created later is stored before one of the same name created earlier (both dates valid),
  the index returns the second, on which \<^verbatim>\<open>shouldRenderAction\<close> is false.
\<close>

theorem latest_index_follows_call_order:
  "(n \<noteq> [] \<and> filter (isActionNamed n) ms \<noteq> [] \<longrightarrow>
      getLatestActionExecution n (storeAll ms reg) = last (filter (isActionNamed n) ms))
   \<and> (n \<noteq> [] \<and> isActionNamed n a \<and> isActionNamed n b
        \<and> property a ''id'' \<noteq> property b ''id''
        \<and> createdTime getTime a = Some ta \<and> createdTime getTime b = Some tb \<and> tb < ta \<longrightarrow>
      getLatestActionExecution n (storeAll [a, b] empty_registry) = b
      \<and> shouldRenderAction getTime (storeAll [a, b] empty_registry) b = Some False)"
  using latest_storeAll [of n ms reg] stale_latest [of n a b getTime ta tb] by blast

theorem latest_index_follows_call_order_witness:
  "getLatestActionExecution ''lookup''
      (storeAll [sample_action ''a2'' ''lookup'' ''1970-01-01T00:00:02.000Z'', sample_text ''t1'',
                 sample_action ''a1'' ''lookup'' ''1970-01-01T00:00:01.000Z'',
                 sample_action ''s1'' ''search'' ''1970-01-01T00:00:03.000Z''] empty_registry)
     = sample_action ''a1'' ''lookup'' ''1970-01-01T00:00:01.000Z''
   \<and> getLatestActionExecution ''lookup''
      (storeAll [sample_action ''a2'' ''lookup'' ''1970-01-01T00:00:02.000Z'',
                 sample_action ''a1'' ''lookup'' ''1970-01-01T00:00:01.000Z''] empty_registry)
     = sample_action ''a1'' ''lookup'' ''1970-01-01T00:00:01.000Z''
   \<and> shouldRenderAction sample_getTime
      (storeAll [sample_action ''a2'' ''lookup'' ''1970-01-01T00:00:02.000Z'',
                 sample_action ''a1'' ''lookup'' ''1970-01-01T00:00:01.000Z''] empty_registry)
      (sample_action ''a1'' ''lookup'' ''1970-01-01T00:00:01.000Z'') = Some False"
  using latest_index_follows_call_order [of "''lookup''"
      "[sample_action ''a2'' ''lookup'' ''1970-01-01T00:00:02.000Z'', sample_text ''t1'',
        sample_action ''a1'' ''lookup'' ''1970-01-01T00:00:01.000Z'',
        sample_action ''s1'' ''search'' ''1970-01-01T00:00:03.000Z'']"
      empty_registry
      "sample_action ''a2'' ''lookup'' ''1970-01-01T00:00:02.000Z''"
      "sample_action ''a1'' ''lookup'' ''1970-01-01T00:00:01.000Z''" sample_getTime 2000 1000]
  by (simp add: isActionNamed_def sample_action_def sample_text_def sample_getTime_def
      createdTime_def)

lemma storeSteps_trans: "storeSteps r' r'' \<Longrightarrow> storeSteps r r' \<Longrightarrow> storeSteps r r''"
  by (induction rule: storeSteps.induct) (auto intro: storeSteps.intros)

lemma storeSteps_one: "storeSteps r (storeMessage m r)"
  by (intro storeSteps.intros)

lemma applyArrayFieldUpdate_cases:
  "applyArrayFieldUpdate inc item ctx = ctx
   \<or> (\<exists>m. applyArrayFieldUpdate inc item ctx = (storeMessage m (fst ctx), snd ctx))"
  unfolding applyArrayFieldUpdate_def Let_def
  by (auto split: json.split option.split)

lemma handleIncrementalData_cases:
  "handleIncrementalData inc ctx = ctx
   \<or> (\<exists>m. handleIncrementalData inc ctx = (storeMessage m (fst ctx), snd ctx))"
  unfolding handleIncrementalData_def Let_def
  by (auto split: option.split)

lemma storeSteps_applyArrayFieldUpdate:
  "storeSteps (fst ctx) (fst (applyArrayFieldUpdate inc item ctx))"
  using applyArrayFieldUpdate_cases [of inc item ctx] by (auto simp: storeSteps_one storeSteps.same)

lemma storeSteps_handleIncrementalData:
  "storeSteps (fst ctx) (fst (handleIncrementalData inc ctx))"
  using handleIncrementalData_cases [of inc ctx] by (auto simp: storeSteps_one storeSteps.same)

lemma storeSteps_handleIncrementalItem:
  "storeSteps (fst ctx) (fst (handleIncrementalItem inc ctx item))"
  unfolding handleIncrementalItem_def Let_def
  by (auto simp: storeSteps_one storeSteps.same storeSteps_applyArrayFieldUpdate split: option.split json.split)

lemma storeSteps_foldl:
  assumes "\<And>c x. storeSteps (fst c) (fst (f c x))"
  shows "storeSteps (fst ctx) (fst (foldl f ctx xs))"
proof (induction xs rule: rev_induct)
  case Nil
  show ?case by (simp add: storeSteps.same)
next
  case (snoc x xs)
  show ?case
    using storeSteps_trans [OF assms [of "foldl f ctx xs" x] snoc.IH] by simp
qed

lemma storeSteps_handleIncrementalItems:
  "storeSteps (fst ctx) (fst (handleIncrementalItems inc ctx))"
  unfolding handleIncrementalItems_def
  by (auto intro: storeSteps.same storeSteps_foldl storeSteps_handleIncrementalItem split: json.split)

lemma storeSteps_processIncrementalEntry:
  "storeSteps (fst ctx) (fst (processIncrementalEntry ctx inc))"
  unfolding processIncrementalEntry_def Let_def
  using storeSteps_handleIncrementalItems [of ctx inc]
    storeSteps_handleIncrementalData [of ctx inc]
    storeSteps_trans [OF storeSteps_handleIncrementalData [of "handleIncrementalItems inc ctx" inc]
      storeSteps_handleIncrementalItems [of ctx inc]]
  by (simp add: storeSteps.same)

lemma storeSteps_processIncrementalPayload:
  "storeSteps (fst ctx) (fst (snd (processIncrementalPayload incremental ctx)))"
  unfolding processIncrementalPayload_def
  by (auto intro: storeSteps.same storeSteps_foldl storeSteps_processIncrementalEntry split: json.split)

lemma storeSteps_processDataMessage: "storeSteps reg (processDataMessage reg m)"
  by (simp add: processDataMessage_def storeSteps_one storeSteps.same)

lemma storeSteps_foldl_reg:
  assumes "\<And>r x. storeSteps r (f r x)"
  shows "storeSteps reg (foldl f reg xs)"
proof (induction xs rule: rev_induct)
  case Nil
  show ?case by (simp add: storeSteps.same)
next
  case (snoc x xs)
  show ?case
    using storeSteps_trans [OF assms [of "foldl f reg xs" x] snoc.IH] by simp
qed

lemma storeSteps_processDataPayload: "storeSteps reg (processDataPayload data reg)"
  unfolding processDataPayload_def Let_def
  by (auto intro: storeSteps.same storeSteps_foldl_reg storeSteps_processDataMessage split: json.split)

lemma storeSteps_processPayload:
  "storeSteps (fst ctx) (fst (snd (processPayload payload ctx)))"
proof -
  let ?c1 = "(processDataPayload (property payload ''data'') (fst ctx), snd ctx)"
  have 1: "storeSteps (fst ctx) (fst ?c1)"
    by (simp add: storeSteps_processDataPayload)
  have 2: "storeSteps (fst ctx) (fst (snd (processIncrementalPayload (property payload ''incremental'') ?c1)))"
    by (rule storeSteps_trans [OF storeSteps_processIncrementalPayload 1])
  show ?thesis
    unfolding processPayload_def Let_def
    using 1 2 storeSteps_processIncrementalPayload [of ctx "property payload ''incremental''"]
    by (simp add: storeSteps.same)
qed

lemma storeSteps_processPayloads:
  "storeSteps (fst ctx) (fst (processPayloads payloads ctx))"
  unfolding processPayloads_def
  by (rule storeSteps_foldl) (rule storeSteps_processPayload)


lemma byTypeKept_refl: "byTypeKept r r"
  by (simp add: byTypeKept_def)

lemma byTypeKept_trans: "byTypeKept r r' \<Longrightarrow> byTypeKept r' r'' \<Longrightarrow> byTypeKept r r''"
  unfolding byTypeKept_def by (meson subset_trans)

lemma byTypeKept_storeMessage: "byTypeKept r (storeMessage m r)"
  unfolding byTypeKept_def by (auto simp: byType_storeMessage set_add_def)

lemma byTypeKept_storeSteps: "storeSteps r r' \<Longrightarrow> byTypeKept r r'"
  by (induction rule: storeSteps.induct)
    (auto intro: byTypeKept_refl byTypeKept_trans byTypeKept_storeMessage)

lemma stale_type_entry:
  assumes "T1 \<noteq> T2"
    and "property m1 ''id'' = JStr i" and "property m1 ''__typename'' = JStr T1"
    and "property m2 ''id'' = JStr i" and "property m2 ''__typename'' = JStr T2"
  shows "m2 \<in> set (getAguiMessagesByType T1 (storeMessage m2 (storeMessage m1 reg)))"
proof -
  let ?reg = "storeMessage m2 (storeMessage m1 reg)"
  obtain ids where ids: "map_of (messagesByType ?reg) (JStr T1) = Some ids" "JStr i \<in> set ids"
    using assms by (auto simp: byType_storeMessage set_add_def)
  have "map_get (messageStore ?reg) (JStr i) = m2"
    using assms by (simp add: messageStore_storeMessage map_get_update)
  moreover have "truthy m2"
    by (rule property_truthy [of m2 "''id''"]) (simp add: assms)
  ultimately show ?thesis
    using ids by (auto simp: getAguiMessagesByType_def image_iff intro!: bexI [of _ "JStr i"])
qed

text \<open>
  Claim C9.  \<^verbatim>\<open>storeMessage\<close> only adds to the by-type index, and so does every run of
  payloads through the interpreter: an id filed under a type name stays filed under it
  (only \<^verbatim>\<open>resetAguiMessageRegistry\<close> empties the index).
  So when a message stored with the type name \<open>T1\<close> is replaced by one of the same id
  and another type name \<open>T2\<close>, \<^verbatim>\<open>getAguiMessagesByType(T1)\<close> still returns the record
  of that id, which is now the one of type \<open>T2\<close>.
\<close>

theorem by_type_index_add_only:
  "byTypeKept reg (storeMessage m reg)
   \<and> byTypeKept (fst ctx) (fst (processPayloads payloads ctx))
   \<and> (T1 \<noteq> T2 \<and> property m1 ''id'' = JStr i \<and> property m1 ''__typename'' = JStr T1
        \<and> property m2 ''id'' = JStr i \<and> property m2 ''__typename'' = JStr T2 \<longrightarrow>
      m2 \<in> set (getAguiMessagesByType T1 (storeMessage m2 (storeMessage m1 reg)))
      \<and> property m2 ''__typename'' \<noteq> JStr T1)"
  using byTypeKept_storeMessage [of reg m]
    byTypeKept_storeSteps [OF storeSteps_processPayloads [of ctx payloads]]
    stale_type_entry [of T1 T2 m1 i m2 reg]
  by auto

theorem by_type_index_add_only_witness:
  "getAguiMessagesByType ''TextMessageOutput''
      (fst (processPayloads [snapshot [sample_text ''m1''],
                             snapshot [sample_action ''m1'' ''lookup'' ''1970-01-01T00:00:02.000Z'']]
            (empty_registry, no_tracker)))
     = [sample_action ''m1'' ''lookup'' ''1970-01-01T00:00:02.000Z'']
   \<and> sample_action ''m1'' ''lookup'' ''1970-01-01T00:00:02.000Z''
      \<in> set (getAguiMessagesByType ''TextMessageOutput''
           (storeMessage (sample_action ''m1'' ''lookup'' ''1970-01-01T00:00:02.000Z'')
              (storeMessage (sample_text ''m1'') empty_registry)))
   \<and> byTypeKept (storeMessage (sample_text ''m1'') empty_registry)
        (storeMessage (sample_action ''m1'' ''lookup'' ''1970-01-01T00:00:02.000Z'')
           (storeMessage (sample_text ''m1'') empty_registry))"
proof -
  have "getAguiMessagesByType ''TextMessageOutput''
      (fst (processPayloads [snapshot [sample_text ''m1''],
                             snapshot [sample_action ''m1'' ''lookup'' ''1970-01-01T00:00:02.000Z'']]
            (empty_registry, no_tracker)))
     = [sample_action ''m1'' ''lookup'' ''1970-01-01T00:00:02.000Z'']"
    by (simp add: processPayloads_def processPayload_def processDataPayload_def
        processDataMessage_def hasTypeAndId_def snapshot_def sample_text_def sample_action_def storeMessage_def
        empty_registry_def getAguiMessagesByType_def set_add_def map_get_def Let_def)
  then show ?thesis
    using by_type_index_add_only [where reg = "storeMessage (sample_text ''m1'') empty_registry"
        and m = "sample_action ''m1'' ''lookup'' ''1970-01-01T00:00:02.000Z''"
        and ctx = "(empty_registry, no_tracker)" and payloads = "[]"]
      by_type_index_add_only [where reg = empty_registry and ctx = "(empty_registry, no_tracker)" and payloads = "[]"
        and ?T1.0 = "''TextMessageOutput''" and ?T2.0 = "''ActionExecutionMessageOutput''"
        and ?m1.0 = "sample_text ''m1''" and i = "''m1''"
        and ?m2.0 = "sample_action ''m1'' ''lookup'' ''1970-01-01T00:00:02.000Z''"]
    by (simp add: sample_text_def sample_action_def)
qed

section \<open>Properties of the interpreter\<close>

lemma property_update:
  "property (JObj (AList.update k v kvs)) key = (if key = k then v else property (JObj kvs) key)"
  by (simp add: update_conv')

lemma property_merge:
  "property (JObj (AList.merge xs ys)) key =
     (case map_of ys key of None \<Rightarrow> property (JObj xs) key | Some v \<Rightarrow> v)"
  by (simp add: merge_conv' map_add_def split: option.split)

lemma property_spread: "property (JObj (spread (JObj kvs))) key = property (JObj kvs) key"
  by simp

lemma isMessageObject_JObj: "isMessageObject m \<Longrightarrow> \<exists>kvs. m = JObj kvs"
  by (cases m) (simp_all add: isMessageObject_def)

lemma property_JObj: "property m k \<noteq> JUndefined \<Longrightarrow> \<exists>kvs. m = JObj kvs"
  by (cases m) simp_all

lemma property_mergedMessage:
  "property (mergedMessage (JObj kvs) data) key =
     (if key = ''id'' \<or> key = ''__typename'' then property (JObj kvs) key
      else case map_of (spread data) key of None \<Rightarrow> property (JObj kvs) key | Some v \<Rightarrow> v)"
  unfolding mergedMessage_def by (simp only: property_update property_merge spread.simps) simp

lemma processPayload_incremental:
  "processPayload (incrementalPayload incs) ctx = (None, foldl processIncrementalEntry ctx incs)"
  by (simp add: processPayload_def incrementalPayload_def processIncrementalPayload_def)

lemma handleIncrementalData_unmapped:
  "getMessageIndexFromPath (property inc ''path'') = Some k \<Longrightarrow>
   tracker k = None \<or> tracker k = Some [] \<Longrightarrow>
     handleIncrementalData inc (reg, tracker) = (reg, tracker)"
  by (auto simp: handleIncrementalData_def)

lemma handleIncrementalData_mapped:
  "getMessageIndexFromPath (property inc ''path'') = Some k \<Longrightarrow>
   tracker k = Some messageId \<Longrightarrow> messageId \<noteq> [] \<Longrightarrow>
   truthy (map_get (messageStore reg) (JStr messageId)) \<Longrightarrow>
     handleIncrementalData inc (reg, tracker)
       = (storeMessage (mergedMessage (map_get (messageStore reg) (JStr messageId))
            (property inc ''data'')) reg, tracker)"
  by (simp add: handleIncrementalData_def)

lemma handleIncrementalItems_message:
  "isMessageObject m \<Longrightarrow> property m ''id'' = JStr messageId \<Longrightarrow>
   getMessageIndexFromPath path = Some k \<Longrightarrow>
     handleIncrementalItems (JObj [(''path'', path), (''items'', JArr [m])]) (reg, tracker)
       = (storeMessage m reg, tracker(k \<mapsto> messageId))"
  by (simp add: handleIncrementalItems_def handleIncrementalItem_def)

lemma processIncrementalEntry_data_only:
  "getMessageIndexFromPath (property inc ''path'') = Some k \<Longrightarrow> \<not> isArray (property inc ''items'') \<Longrightarrow>
     processIncrementalEntry ctx inc
       = (if truthy (property inc ''data'') then handleIncrementalData inc ctx else ctx)"
proof -
  assume k: "getMessageIndexFromPath (property inc ''path'') = Some k"
    and i: "\<not> isArray (property inc ''items'')"
  have "property inc ''path'' \<noteq> JUndefined"
    using k by (auto simp: getMessageIndexFromPath_def)
  then have "truthy inc"
    by (rule property_truthy)
  then show ?thesis
    using i by (simp add: processIncrementalEntry_def)
qed

lemma processIncrementalEntry_establish:
  "isMessageObject m \<Longrightarrow> property m ''id'' = JStr messageId \<Longrightarrow>
   getMessageIndexFromPath path = Some k \<Longrightarrow>
     processIncrementalEntry (reg, tracker) (JObj [(''path'', path), (''items'', JArr [m])])
       = (storeMessage m reg, tracker(k \<mapsto> messageId))"
  using handleIncrementalItems_message [of m messageId path k reg tracker]
  by (simp add: processIncrementalEntry_def)

text \<open>
  Claim C3.  Let \<open>inc\<close> be an incremental entry that is a data patch (it has no
  \<^verbatim>\<open>items\<close> array) and whose path gives the message index \<open>k\<close>.  While the tracker has
  no id for \<open>k\<close> (no entry, or the empty string, which \<^verbatim>\<open>!messageId\<close> takes for none),
  the payload holding the patch returns without an exception and leaves the registry
  (store, indexes, calls made to subscribers) and the tracker as they were.  Once an items
  entry with a message of the non-empty id \<open>messageId\<close> has established the index
  \<open>k\<close>, the same payload returns without an exception and the record stored under
  \<open>messageId\<close> is the merge: the id and the type name of the message, the value the patch
  gives for every other key it has, and the value of the message for the rest; every
  subscriber is called with that record.
\<close>

theorem unresolved_patch_dropped_then_applies:
  assumes "getMessageIndexFromPath (property inc ''path'') = Some k"
    and "\<not> isArray (property inc ''items'')"
  shows "(tracker k = None \<or> tracker k = Some [] \<longrightarrow>
            processPayload (incrementalPayload [inc]) (reg, tracker) = (None, (reg, tracker)))
       \<and> (isMessageObject m \<and> property m ''id'' = JStr messageId \<and> messageId \<noteq> []
            \<and> getMessageIndexFromPath path = Some k \<and> truthy (property inc ''data'') \<longrightarrow>
          (let established = snd (processPayload
                 (incrementalPayload [JObj [(''path'', path), (''items'', JArr [m])]]) (reg, tracker));
               replay = processPayload (incrementalPayload [inc]) established;
               stored = map_get (messageStore (fst (snd replay))) (JStr messageId)
           in fst replay = None
            \<and> (\<forall>key. property stored key =
                  (if key = ''id'' \<or> key = ''__typename'' then property m key
                   else case map_of (spread (property inc ''data'')) key of
                          None \<Rightarrow> property m key | Some v \<Rightarrow> v))
            \<and> notified (fst (snd replay))
                = notified (fst established) @ map (\<lambda>callback. (callback, stored)) (subscribers reg)))"
proof (intro conjI impI)
  assume "tracker k = None \<or> tracker k = Some []"
  then show "processPayload (incrementalPayload [inc]) (reg, tracker) = (None, (reg, tracker))"
    using assms handleIncrementalData_unmapped [of inc k tracker reg]
    by (simp add: processPayload_incremental processIncrementalEntry_data_only)
next
  assume a: "isMessageObject m \<and> property m ''id'' = JStr messageId \<and> messageId \<noteq> []
            \<and> getMessageIndexFromPath path = Some k \<and> truthy (property inc ''data'')"
  obtain kvs where m: "m = JObj kvs"
    using a isMessageObject_JObj by blast
  let ?reg1 = "storeMessage m reg"
  let ?tr1 = "tracker(k \<mapsto> messageId)"
  have est: "snd (processPayload
       (incrementalPayload [JObj [(''path'', path), (''items'', JArr [m])]]) (reg, tracker))
     = (?reg1, ?tr1)"
    using a by (simp add: processPayload_incremental processIncrementalEntry_establish)
  have cur: "map_get (messageStore ?reg1) (JStr messageId) = m"
    using a by (simp add: messageStore_storeMessage map_get_update)
  have replay: "processPayload (incrementalPayload [inc]) (?reg1, ?tr1)
     = (None, (storeMessage (mergedMessage m (property inc ''data'')) ?reg1, ?tr1))"
    using assms a cur handleIncrementalData_mapped [of inc k ?tr1 messageId ?reg1]
    by (simp add: processPayload_incremental processIncrementalEntry_data_only m)
  have key: "property (mergedMessage m (property inc ''data'')) ''id'' = JStr messageId"
    using a by (simp add: m property_mergedMessage)
  have stored: "map_get (messageStore (storeMessage (mergedMessage m (property inc ''data'')) ?reg1))
      (JStr messageId) = mergedMessage m (property inc ''data'')"
    by (simp add: messageStore_storeMessage map_get_update key)
  show "let established = snd (processPayload
                 (incrementalPayload [JObj [(''path'', path), (''items'', JArr [m])]]) (reg, tracker));
               replay = processPayload (incrementalPayload [inc]) established;
               stored = map_get (messageStore (fst (snd replay))) (JStr messageId)
           in fst replay = None
            \<and> (\<forall>key. property stored key =
                  (if key = ''id'' \<or> key = ''__typename'' then property m key
                   else case map_of (spread (property inc ''data'')) key of
                          None \<Rightarrow> property m key | Some v \<Rightarrow> v))
            \<and> notified (fst (snd replay))
                = notified (fst established) @ map (\<lambda>callback. (callback, stored)) (subscribers reg)"
    unfolding Let_def est replay
    by (simp add: stored notified_storeMessage subscribers_storeMessage)
      (auto simp: m property_mergedMessage split: option.split)
qed


theorem unresolved_patch_dropped_then_applies_witness:
  "getMessageIndexFromPath (property sample_patch ''path'') = Some 0
   \<and> \<not> isArray (property sample_patch ''items'')
   \<and> processPayload (incrementalPayload [sample_patch])
        (subscribeToAguiMessages 7 empty_registry, no_tracker)
      = (None, (subscribeToAguiMessages 7 empty_registry, no_tracker))
   \<and> map_get (messageStore (fst (snd (processPayload (incrementalPayload [sample_patch])
          (snd (processPayload (incrementalPayload [sample_items (sample_text ''m1'')])
             (subscribeToAguiMessages 7 empty_registry, no_tracker))))))) (JStr ''m1'')
      = JObj [(''__typename'', JStr ''TextMessageOutput''), (''id'', JStr ''m1''),
           (''createdAt'', JStr ''1970-01-01T00:00:01.000Z''), (''content'', JArr [JStr ''hi'']),
           (''role'', JStr ''assistant'')]
   \<and> fst (processPayload (incrementalPayload [sample_patch])
          (snd (processPayload (incrementalPayload [sample_items (sample_text ''m1'')])
             (subscribeToAguiMessages 7 empty_registry, no_tracker)))) = None"
proof -
  have idx: "getMessageIndexFromPath (property sample_patch ''path'') = Some 0"
    by (simp add: sample_patch_def sample_path_def getMessageIndexFromPath_def messagePathIdx_def at_def)
  have items: "\<not> isArray (property sample_patch ''items'')"
    by (simp add: sample_patch_def)
  have dropped: "processPayload (incrementalPayload [sample_patch])
        (subscribeToAguiMessages 7 empty_registry, no_tracker)
      = (None, (subscribeToAguiMessages 7 empty_registry, no_tracker))"
    using unresolved_patch_dropped_then_applies [OF idx items, of no_tracker]
    by (simp add: no_tracker_def)
  have applied: "map_get (messageStore (fst (snd (processPayload (incrementalPayload [sample_patch])
          (snd (processPayload (incrementalPayload [sample_items (sample_text ''m1'')])
             (subscribeToAguiMessages 7 empty_registry, no_tracker))))))) (JStr ''m1'')
      = JObj [(''__typename'', JStr ''TextMessageOutput''), (''id'', JStr ''m1''),
           (''createdAt'', JStr ''1970-01-01T00:00:01.000Z''), (''content'', JArr [JStr ''hi'']),
           (''role'', JStr ''assistant'')]"
    by (simp add: processPayload_incremental processIncrementalEntry_def handleIncrementalItems_def
        handleIncrementalItem_def handleIncrementalData_def isMessageObject_def sample_items_def
        sample_text_def sample_patch_def sample_path_def getMessageIndexFromPath_def
        messagePathIdx_def at_def messageStore_storeMessage map_get_update mergedMessage_def
        AList.merge_def)
  have hyps: "isMessageObject (sample_text ''m1'') \<and> property (sample_text ''m1'') ''id'' = JStr ''m1''
      \<and> ''m1'' \<noteq> [] \<and> getMessageIndexFromPath (JArr sample_path) = Some 0
      \<and> truthy (property sample_patch ''data'')"
    by (simp add: isMessageObject_def sample_text_def sample_patch_def sample_path_def
        getMessageIndexFromPath_def messagePathIdx_def at_def)
  have returned: "fst (processPayload (incrementalPayload [sample_patch])
          (snd (processPayload (incrementalPayload [sample_items (sample_text ''m1'')])
             (subscribeToAguiMessages 7 empty_registry, no_tracker)))) = None"
    using unresolved_patch_dropped_then_applies [OF idx items,
        where m = "sample_text ''m1''" and messageId = "''m1''" and path = "JArr sample_path"
        and reg = "subscribeToAguiMessages 7 empty_registry" and tracker = no_tracker] hyps
    by (simp add: Let_def sample_items_def)
  show ?thesis
    using idx items dropped applied returned by simp
qed

lemma applyArrayFieldUpdate_resolved:
  assumes "addresses inc k field i" and "field = ''content'' \<or> field = ''arguments''"
    and "tracker k = Some messageId" and "messageId \<noteq> []"
    and "truthy (map_get (messageStore reg) (JStr messageId))"
  shows "applyArrayFieldUpdate inc v (reg, tracker)
    = (storeMessage (patchedMessage (map_get (messageStore reg) (JStr messageId)) field i v) reg, tracker)"
proof -
  obtain path where p: "property inc ''path'' = JArr path" "getMessageIndexFromPath (JArr path) = Some k"
    "getFieldFromPath path = Some field" "getArrayIndexFromPath path = Some i"
    using assms(1) by (auto simp: addresses_def)
  show ?thesis
    unfolding applyArrayFieldUpdate_def Let_def
    using p assms(2-5) by auto
qed

lemma property_patchedMessage:
  "property (patchedMessage (JObj kvs) field i v) key =
     (if key = field then updateArrayField (property (JObj kvs) field) i v
      else property (JObj kvs) key)"
  unfolding patchedMessage_def by (simp only: property_update spread.simps)

lemma array_step:
  assumes a: "addresses inc k field i" and f: "field = ''content'' \<or> field = ''arguments''"
    and t: "tracker k = Some messageId" and n: "messageId \<noteq> []"
    and c: "map_get (messageStore reg) (JStr messageId) = JObj kvs"
    and d: "property (JObj kvs) ''id'' = JStr messageId"
  shows "\<exists>kvs'. applyArrayFieldUpdate inc v (reg, tracker) = (storeMessage (JObj kvs') reg, tracker)
     \<and> map_get (messageStore (storeMessage (JObj kvs') reg)) (JStr messageId) = JObj kvs'
     \<and> (\<forall>key. property (JObj kvs') key =
           (if key = field then updateArrayField (property (JObj kvs) field) i v
            else property (JObj kvs) key))"
proof -
  obtain kvs' where k: "patchedMessage (JObj kvs) field i v = JObj kvs'"
    by (simp add: patchedMessage_def)
  have p: "\<forall>key. property (JObj kvs') key =
           (if key = field then updateArrayField (property (JObj kvs) field) i v
            else property (JObj kvs) key)"
    using property_patchedMessage [of kvs field i v] k by simp
  have "field \<noteq> ''id''"
    using f by auto
  then have "property (JObj kvs') ''id'' = JStr messageId"
    using p d by simp
  then have "map_get (messageStore (storeMessage (JObj kvs') reg)) (JStr messageId) = JObj kvs'"
    by (simp add: messageStore_storeMessage map_get_update)
  moreover have "applyArrayFieldUpdate inc v (reg, tracker) = (storeMessage (JObj kvs') reg, tracker)"
    using applyArrayFieldUpdate_resolved [of inc k field i tracker messageId reg v] a f t n c k by simp
  ultimately show ?thesis
    using p by blast
qed


lemma assignIndex_shape:
  assumes "0 \<le> i" and "i < 2 ^ 32 - 1"
  shows "length (assignIndex xs i v) = max (length xs) (nat i + 1)"
    and "at (assignIndex xs i v) j = (if j = nat i then v else at xs j)"
  using assms by (auto simp: assignIndex_def at_def nth_append)

lemma updateArrayField_fresh:
  "\<not> isArray existing \<or> existing = JArr [] \<Longrightarrow> updateArrayField existing 0 v = JArr [JStr v]"
  by (cases existing) (auto simp: updateArrayField_def assignIndex_def)

lemma updateArrayField_second:
  "updateArrayField (JArr [x]) 1 v = JArr [x, JStr v]"
  by (simp add: updateArrayField_def assignIndex_def)

lemma updateArrayField_third:
  "updateArrayField (JArr [x, y]) 2 v = JArr [x, y, JStr v]"
  by (simp add: updateArrayField_def assignIndex_def)

lemma three_patches:
  assumes f: "field = ''content'' \<or> field = ''arguments''"
    and t: "tracker k = Some messageId" and n: "messageId \<noteq> []"
    and c: "map_get (messageStore reg) (JStr messageId) = current"
    and d: "property current ''id'' = JStr messageId"
    and a0: "addresses inc0 k field 0" and a1: "addresses inc1 k field 1"
    and a2: "addresses inc2 k field 2"
    and e: "\<not> isArray (property current field) \<or> property current field = JArr []"
  shows "\<exists>reg3 stored.
      applyArrayFieldUpdate inc2 s2 (applyArrayFieldUpdate inc1 s1
         (applyArrayFieldUpdate inc0 s0 (reg, tracker))) = (reg3, tracker)
      \<and> map_get (messageStore reg3) (JStr messageId) = stored
      \<and> property stored field = JArr [JStr s0, JStr s1, JStr s2]
      \<and> (\<forall>key. key \<noteq> field \<longrightarrow> property stored key = property current key)"
proof -
  obtain kvs where cur: "current = JObj kvs"
    using d property_JObj [of current "''id''"] by auto
  have id: "field \<noteq> ''id''"
    using f by auto
  obtain kvs1 where 1: "applyArrayFieldUpdate inc0 s0 (reg, tracker) = (storeMessage (JObj kvs1) reg, tracker)"
    "map_get (messageStore (storeMessage (JObj kvs1) reg)) (JStr messageId) = JObj kvs1"
    "\<forall>key. property (JObj kvs1) key =
           (if key = field then updateArrayField (property (JObj kvs) field) 0 s0
            else property (JObj kvs) key)"
    using array_step [of inc0 k field 0 tracker messageId reg kvs s0] a0 f t n c d cur by auto
  let ?reg1 = "storeMessage (JObj kvs1) reg"
  have d1: "property (JObj kvs1) ''id'' = JStr messageId"
    using 1(3) id d cur by simp
  have f1: "property (JObj kvs1) field = JArr [JStr s0]"
    using 1(3) e cur updateArrayField_fresh [of "property (JObj kvs) field" s0] by simp
  obtain kvs2 where 2: "applyArrayFieldUpdate inc1 s1 (?reg1, tracker) = (storeMessage (JObj kvs2) ?reg1, tracker)"
    "map_get (messageStore (storeMessage (JObj kvs2) ?reg1)) (JStr messageId) = JObj kvs2"
    "\<forall>key. property (JObj kvs2) key =
           (if key = field then updateArrayField (property (JObj kvs1) field) 1 s1
            else property (JObj kvs1) key)"
    using array_step [of inc1 k field 1 tracker messageId ?reg1 kvs1 s1] a1 f t n 1(2) d1 by auto
  let ?reg2 = "storeMessage (JObj kvs2) ?reg1"
  have d2: "property (JObj kvs2) ''id'' = JStr messageId"
    using 2(3) id d1 by simp
  have f2: "property (JObj kvs2) field = JArr [JStr s0, JStr s1]"
    using 2(3) f1 by (simp add: updateArrayField_second)
  obtain kvs3 where 3: "applyArrayFieldUpdate inc2 s2 (?reg2, tracker) = (storeMessage (JObj kvs3) ?reg2, tracker)"
    "map_get (messageStore (storeMessage (JObj kvs3) ?reg2)) (JStr messageId) = JObj kvs3"
    "\<forall>key. property (JObj kvs3) key =
           (if key = field then updateArrayField (property (JObj kvs2) field) 2 s2
            else property (JObj kvs2) key)"
    using array_step [of inc2 k field 2 tracker messageId ?reg2 kvs2 s2] a2 f t n 2(2) d2 by auto
  have f3: "property (JObj kvs3) field = JArr [JStr s0, JStr s1, JStr s2]"
    using 3(3) f2 by (simp add: updateArrayField_third)
  have rest: "\<forall>key. key \<noteq> field \<longrightarrow> property (JObj kvs3) key = property current key"
    using 1(3) 2(3) 3(3) cur by simp
  show ?thesis
    using 1(1) 2(1) 3(1) 3(2) f3 rest by simp
qed

lemma one_patch:
  assumes f: "field = ''content'' \<or> field = ''arguments''"
    and t: "tracker k = Some messageId" and n: "messageId \<noteq> []"
    and c: "map_get (messageStore reg) (JStr messageId) = current"
    and d: "property current ''id'' = JStr messageId"
    and a: "addresses inc k field i"
  shows "property (map_get (messageStore (fst (applyArrayFieldUpdate inc v (reg, tracker))))
            (JStr messageId)) field
       = JArr (assignIndex (case property current field of JArr xs \<Rightarrow> xs | _ \<Rightarrow> []) i (JStr v))"
proof -
  obtain kvs where cur: "current = JObj kvs"
    using d property_JObj [of current "''id''"] by auto
  obtain kvs1 where 1: "applyArrayFieldUpdate inc v (reg, tracker) = (storeMessage (JObj kvs1) reg, tracker)"
    "map_get (messageStore (storeMessage (JObj kvs1) reg)) (JStr messageId) = JObj kvs1"
    "\<forall>key. property (JObj kvs1) key =
           (if key = field then updateArrayField (property (JObj kvs) field) i v
            else property (JObj kvs) key)"
    using array_step [of inc k field i tracker messageId reg kvs v] a f t n c d cur by auto
  show ?thesis
    using 1 cur by (simp add: updateArrayField_def)
qed


text \<open>
  Claim C6 (array-field growth).  Let the tracker map the index \<open>k\<close> to a non-empty id
  under which the store holds the message \<open>current\<close> of that id, and let \<open>field\<close> be
  \<^verbatim>\<open>content\<close> or \<^verbatim>\<open>arguments\<close>.  If \<open>current\<close> has no array in that field, or
  the empty one, then after three patches that write the strings \<open>s0\<close>, \<open>s1\<close>, \<open>s2\<close>
  to the positions \<open>0\<close>, \<open>1\<close>, \<open>2\<close> the stored message has the field equal to the array
  of the three strings in order, every other property as before, and the tracker is
  unchanged.  One patch for the position \<open>i\<close> leaves in the field the array \<open>current\<close>
  had (the empty one when it had none) with the string assigned at \<open>i\<close>; and assigning
  at an array index \<open>i\<close> gives an array as long as before or \<open>i + 1\<close> long, with the
  new element at \<open>i\<close>, the old element wherever there was one, and holes elsewhere.
\<close>

theorem array_field_growth:
  assumes "field = ''content'' \<or> field = ''arguments''"
    and "tracker k = Some messageId" and "messageId \<noteq> []"
    and "map_get (messageStore reg) (JStr messageId) = current"
    and "property current ''id'' = JStr messageId"
  shows "(addresses inc0 k field 0 \<and> addresses inc1 k field 1 \<and> addresses inc2 k field 2
          \<and> (\<not> isArray (property current field) \<or> property current field = JArr []) \<longrightarrow>
          (let ctx3 = applyArrayFieldUpdate inc2 s2 (applyArrayFieldUpdate inc1 s1
                        (applyArrayFieldUpdate inc0 s0 (reg, tracker)));
               stored = map_get (messageStore (fst ctx3)) (JStr messageId)
           in property stored field = JArr [JStr s0, JStr s1, JStr s2]
            \<and> (\<forall>key. key \<noteq> field \<longrightarrow> property stored key = property current key)
            \<and> snd ctx3 = tracker))
       \<and> (addresses inc k field i \<longrightarrow>
            property (map_get (messageStore (fst (applyArrayFieldUpdate inc v (reg, tracker))))
              (JStr messageId)) field
            = JArr (assignIndex (case property current field of JArr xs \<Rightarrow> xs | _ \<Rightarrow> []) i (JStr v)))
       \<and> (0 \<le> i \<and> i < 2 ^ 32 - 1 \<longrightarrow>
            length (assignIndex xs i x) = max (length xs) (nat i + 1)
            \<and> at (assignIndex xs i x) j = (if j = nat i then x else at xs j))"
proof (intro conjI impI)
  assume "addresses inc0 k field 0 \<and> addresses inc1 k field 1 \<and> addresses inc2 k field 2
          \<and> (\<not> isArray (property current field) \<or> property current field = JArr [])"
  then obtain reg3 stored where
    "applyArrayFieldUpdate inc2 s2 (applyArrayFieldUpdate inc1 s1
         (applyArrayFieldUpdate inc0 s0 (reg, tracker))) = (reg3, tracker)"
    "map_get (messageStore reg3) (JStr messageId) = stored"
    "property stored field = JArr [JStr s0, JStr s1, JStr s2]"
    "\<forall>key. key \<noteq> field \<longrightarrow> property stored key = property current key"
    using three_patches [of field tracker k messageId reg current inc0 inc1 inc2 s2 s1 s0] assms
    by blast
  then show "let ctx3 = applyArrayFieldUpdate inc2 s2 (applyArrayFieldUpdate inc1 s1
                        (applyArrayFieldUpdate inc0 s0 (reg, tracker)));
               stored = map_get (messageStore (fst ctx3)) (JStr messageId)
           in property stored field = JArr [JStr s0, JStr s1, JStr s2]
            \<and> (\<forall>key. key \<noteq> field \<longrightarrow> property stored key = property current key)
            \<and> snd ctx3 = tracker"
    by (simp add: Let_def)
next
  assume "addresses inc k field i"
  then show "property (map_get (messageStore (fst (applyArrayFieldUpdate inc v (reg, tracker))))
              (JStr messageId)) field
            = JArr (assignIndex (case property current field of JArr xs \<Rightarrow> xs | _ \<Rightarrow> []) i (JStr v))"
    using one_patch [of field tracker k messageId reg current inc i v] assms by blast
next
  assume "0 \<le> i \<and> i < 2 ^ 32 - 1"
  then show "length (assignIndex xs i x) = max (length xs) (nat i + 1)"
    using assignIndex_shape(1) [of i xs x] by blast
next
  assume "0 \<le> i \<and> i < 2 ^ 32 - 1"
  then show "at (assignIndex xs i x) j = (if j = nat i then x else at xs j)"
    using assignIndex_shape(2) [of i xs x j] by blast
qed

lemma addresses_sample_segment: "addresses (sample_segment i s) 0 ''content'' i"
  unfolding addresses_def
  by (rule exI [of _ "sample_path @ [JStr ''content'', JNum i]"])
    (simp add: sample_segment_def sample_path_def getMessageIndexFromPath_def getFieldFromPath_def
      getArrayIndexFromPath_def messagePathIdx_def at_def)

theorem array_field_growth_witness:
  "property (map_get (messageStore (fst
       (applyArrayFieldUpdate (sample_segment 2 ''world'') ''world''
          (applyArrayFieldUpdate (sample_segment 1 ''lo '') ''lo ''
             (applyArrayFieldUpdate (sample_segment 0 ''Hel'') ''Hel''
                (storeMessage sample_bare empty_registry, no_tracker(0 \<mapsto> ''m1'')))))))
       (JStr ''m1'')) ''content''
     = JArr [JStr ''Hel'', JStr ''lo '', JStr ''world'']
   \<and> property (map_get (messageStore (fst (snd
       (processPayload (incrementalPayload [sample_segment 0 ''Hel'', sample_segment 1 ''lo '',
            sample_segment 2 ''world''])
          (snd (processPayload (incrementalPayload [sample_items sample_bare])
             (empty_registry, no_tracker)))))))
       (JStr ''m1'')) ''content''
     = JArr [JStr ''Hel'', JStr ''lo '', JStr ''world'']
   \<and> assignIndex [JStr ''a''] 3 (JStr ''z'') = [JStr ''a'', JUndefined, JUndefined, JStr ''z'']
   \<and> length (assignIndex [JStr ''a''] 3 (JStr ''z'')) = 4
   \<and> property (map_get (messageStore (fst
       (applyArrayFieldUpdate (sample_segment 2 ''world'') ''world''
          (storeMessage sample_bare empty_registry, no_tracker(0 \<mapsto> ''m1'')))))
       (JStr ''m1'')) ''content''
     = JArr [JUndefined, JUndefined, JStr ''world'']"
proof -
  have h: "map_get (messageStore (storeMessage sample_bare empty_registry)) (JStr ''m1'') = sample_bare"
    "property sample_bare ''id'' = JStr ''m1''" "\<not> isArray (property sample_bare ''content'')"
    "(no_tracker(0 \<mapsto> ''m1'')) 0 = Some ''m1''"
    by (simp_all add: sample_bare_def messageStore_storeMessage map_get_update)
  have direct: "property (map_get (messageStore (fst
       (applyArrayFieldUpdate (sample_segment 2 ''world'') ''world''
          (applyArrayFieldUpdate (sample_segment 1 ''lo '') ''lo ''
             (applyArrayFieldUpdate (sample_segment 0 ''Hel'') ''Hel''
                (storeMessage sample_bare empty_registry, no_tracker(0 \<mapsto> ''m1'')))))))
       (JStr ''m1'')) ''content''
     = JArr [JStr ''Hel'', JStr ''lo '', JStr ''world'']"
    using array_field_growth [where field = "''content''" and tracker = "no_tracker(0 \<mapsto> ''m1'')"
        and k = 0 and messageId = "''m1''" and reg = "storeMessage sample_bare empty_registry"
        and current = sample_bare and ?inc0.0 = "sample_segment 0 ''Hel''"
        and ?inc1.0 = "sample_segment 1 ''lo ''" and ?inc2.0 = "sample_segment 2 ''world''"
        and ?s0.0 = "''Hel''" and ?s1.0 = "''lo ''" and ?s2.0 = "''world''"]
      h addresses_sample_segment
    by (simp add: Let_def)
  have est: "snd (processPayload (incrementalPayload [sample_items sample_bare]) (empty_registry, no_tracker))
      = (storeMessage sample_bare empty_registry, no_tracker(0 \<mapsto> ''m1''))"
    by (simp add: processPayload_incremental processIncrementalEntry_def handleIncrementalItems_def
        handleIncrementalItem_def isMessageObject_def sample_items_def sample_bare_def
        sample_path_def getMessageIndexFromPath_def messagePathIdx_def at_def)
  have seg: "\<And>i s ctx. processIncrementalEntry ctx (sample_segment i s)
      = applyArrayFieldUpdate (sample_segment i s) s ctx"
    by (simp add: processIncrementalEntry_def handleIncrementalItems_def handleIncrementalItem_def
        isMessageObject_def sample_segment_def)
  have whole: "property (map_get (messageStore (fst (snd
       (processPayload (incrementalPayload [sample_segment 0 ''Hel'', sample_segment 1 ''lo '',
            sample_segment 2 ''world''])
          (snd (processPayload (incrementalPayload [sample_items sample_bare])
             (empty_registry, no_tracker)))))))
       (JStr ''m1'')) ''content''
     = JArr [JStr ''Hel'', JStr ''lo '', JStr ''world'']"
    unfolding est using direct by (simp add: processPayload_incremental seg)
  have len: "length (assignIndex [JStr ''a''] 3 (JStr ''z'')) = 4"
    using array_field_growth [where field = "''content''" and tracker = "no_tracker(0 \<mapsto> ''m1'')"
        and k = 0 and messageId = "''m1''" and reg = "storeMessage sample_bare empty_registry"
        and current = sample_bare and i = 3 and xs = "[JStr ''a'']" and x = "JStr ''z''"] h
    by simp
  have one: "property (map_get (messageStore (fst
       (applyArrayFieldUpdate (sample_segment 2 ''world'') ''world''
          (storeMessage sample_bare empty_registry, no_tracker(0 \<mapsto> ''m1'')))))
       (JStr ''m1'')) ''content''
     = JArr [JUndefined, JUndefined, JStr ''world'']"
    using array_field_growth [where field = "''content''" and tracker = "no_tracker(0 \<mapsto> ''m1'')"
        and k = 0 and messageId = "''m1''" and reg = "storeMessage sample_bare empty_registry"
        and current = sample_bare and inc = "sample_segment 2 ''world''" and i = 2
        and v = "''world''"] h addresses_sample_segment [of 2 "''world''"]
    by (simp add: assignIndex_def numeral_2_eq_2 sample_bare_def)
  show ?thesis
    using direct whole len one by (simp add: assignIndex_def numeral_2_eq_2)
qed

lemma map_of_storeMessage:
  "map_of (messageStore (storeMessage m r)) k
     = (if k = property m ''id'' then Some m else map_of (messageStore r) k)"
  by (simp add: messageStore_storeMessage update_conv')

lemma storeKeyed_storeMessage: "storeKeyed r \<Longrightarrow> storeKeyed (storeMessage m r)"
  by (simp add: storeKeyed_def map_of_storeMessage)

lemma storeKeyed_storeSteps: "storeSteps r r' \<Longrightarrow> storeKeyed r \<Longrightarrow> storeKeyed r'"
  by (induction rule: storeSteps.induct) (auto intro: storeKeyed_storeMessage)

lemma kindsKept_refl: "kindsKept r r"
  by (simp add: kindsKept_def)

lemma kindsKept_trans: "kindsKept r r' \<Longrightarrow> kindsKept r' r'' \<Longrightarrow> kindsKept r r''"
  unfolding kindsKept_def by fastforce

lemma map_get_truthy:
  "truthy (map_get store k) \<Longrightarrow> map_of store k = Some (map_get store k)"
  by (auto simp: map_get_def split: option.splits)

lemma kindsKept_update:
  assumes "storeKeyed r" and "truthy (map_get (messageStore r) k)"
    and "property u ''id'' = property (map_get (messageStore r) k) ''id''"
    and "property u ''__typename'' = property (map_get (messageStore r) k) ''__typename''"
  shows "kindsKept r (storeMessage u r)"
proof -
  have cur: "map_of (messageStore r) k = Some (map_get (messageStore r) k)"
    by (rule map_get_truthy [OF assms(2)])
  then have "property (map_get (messageStore r) k) ''id'' = k"
    using assms(1) by (simp add: storeKeyed_def)
  then have key: "property u ''id'' = k"
    using assms(3) by simp
  show ?thesis
    unfolding kindsKept_def map_of_storeMessage key
    using cur assms(3,4) by auto
qed

lemma property_mergedMessage_id:
  "property (mergedMessage current data) ''id'' = property current ''id''"
  "property (mergedMessage current data) ''__typename'' = property current ''__typename''"
  by (simp_all add: mergedMessage_def update_conv')

lemma kindsKept_handleIncrementalData:
  assumes "storeKeyed (fst ctx)"
  shows "kindsKept (fst ctx) (fst (handleIncrementalData inc ctx))"
proof -
  have "handleIncrementalData inc ctx = ctx
      \<or> (\<exists>messageId. truthy (map_get (messageStore (fst ctx)) (JStr messageId))
           \<and> handleIncrementalData inc ctx
              = (storeMessage (mergedMessage (map_get (messageStore (fst ctx)) (JStr messageId))
                   (property inc ''data'')) (fst ctx), snd ctx))"
    unfolding handleIncrementalData_def Let_def by (auto split: option.split)
  then show ?thesis
    using kindsKept_update [OF assms] by (auto simp: kindsKept_refl property_mergedMessage_id)
qed

lemma kindsKept_applyArrayFieldUpdate:
  assumes "storeKeyed (fst ctx)"
  shows "kindsKept (fst ctx) (fst (applyArrayFieldUpdate inc item ctx))"
proof -
  have "applyArrayFieldUpdate inc item ctx = ctx
      \<or> (\<exists>messageId field i. truthy (map_get (messageStore (fst ctx)) (JStr messageId))
           \<and> (field = ''arguments'' \<or> field = ''content'')
           \<and> applyArrayFieldUpdate inc item ctx
              = (storeMessage (patchedMessage (map_get (messageStore (fst ctx)) (JStr messageId))
                   field i item) (fst ctx), snd ctx))"
    unfolding applyArrayFieldUpdate_def Let_def by (auto split: option.split json.split)
  then consider "applyArrayFieldUpdate inc item ctx = ctx"
    | messageId field i where "truthy (map_get (messageStore (fst ctx)) (JStr messageId))"
      "field = ''arguments'' \<or> field = ''content''"
      "applyArrayFieldUpdate inc item ctx
         = (storeMessage (patchedMessage (map_get (messageStore (fst ctx)) (JStr messageId))
              field i item) (fst ctx), snd ctx)"
    by blast
  then show ?thesis
  proof cases
    case 1
    then show ?thesis by (simp add: kindsKept_refl)
  next
    case 2
    let ?cur = "map_get (messageStore (fst ctx)) (JStr messageId)"
    have "property ?cur ''id'' = JStr messageId"
      using assms map_get_truthy [OF 2(1)] by (simp add: storeKeyed_def)
    then obtain kvs where kvs: "?cur = JObj kvs"
      using property_JObj [of ?cur "''id''"] by auto
    have "property (patchedMessage ?cur field i item) ''id'' = property ?cur ''id''"
      "property (patchedMessage ?cur field i item) ''__typename'' = property ?cur ''__typename''"
      using 2(2) by (auto simp: kvs property_patchedMessage)
    then show ?thesis
      using kindsKept_update [OF assms 2(1)] 2(3) by simp
  qed
qed


lemma kinds_foldl:
  assumes "\<And>c x. x \<in> set xs \<Longrightarrow> storeKeyed (fst c) \<Longrightarrow>
             storeKeyed (fst (f c x)) \<and> kindsKept (fst c) (fst (f c x))"
    and "storeKeyed (fst ctx)"
  shows "storeKeyed (fst (foldl f ctx xs)) \<and> kindsKept (fst ctx) (fst (foldl f ctx xs))"
  using assms(1)
proof (induction xs rule: rev_induct)
  case Nil
  show ?case by (simp add: assms(2) kindsKept_refl)
next
  case (snoc x xs)
  have ih: "storeKeyed (fst (foldl f ctx xs))" "kindsKept (fst ctx) (fst (foldl f ctx xs))"
    using snoc.IH snoc.prems by simp_all
  have "storeKeyed (fst (f (foldl f ctx xs) x)) \<and> kindsKept (fst (foldl f ctx xs)) (fst (f (foldl f ctx xs) x))"
    using snoc.prems [of x "foldl f ctx xs"] ih(1) by simp
  then show ?case
    using kindsKept_trans [OF ih(2)] by simp
qed

lemma kinds_handleIncrementalItem:
  assumes "\<not> isMessageObject item" and "storeKeyed (fst ctx)"
  shows "storeKeyed (fst (handleIncrementalItem inc ctx item))
       \<and> kindsKept (fst ctx) (fst (handleIncrementalItem inc ctx item))"
proof -
  have "kindsKept (fst ctx) (fst (handleIncrementalItem inc ctx item))"
    using assms kindsKept_applyArrayFieldUpdate [OF assms(2), of inc]
    by (simp add: handleIncrementalItem_def kindsKept_refl split: json.split)
  then show ?thesis
    using storeKeyed_storeSteps [OF storeSteps_handleIncrementalItem assms(2)] by simp
qed

lemma kinds_handleIncrementalItems:
  assumes "patchOnly inc" and "storeKeyed (fst ctx)"
  shows "storeKeyed (fst (handleIncrementalItems inc ctx))
       \<and> kindsKept (fst ctx) (fst (handleIncrementalItems inc ctx))"
proof (cases "property inc ''items''")
  case (JArr items)
  then have "\<And>item. item \<in> set items \<Longrightarrow> \<not> isMessageObject item"
    using assms(1) by (simp add: patchOnly_def list_all_iff)
  then have "storeKeyed (fst (foldl (handleIncrementalItem inc) ctx items))
       \<and> kindsKept (fst ctx) (fst (foldl (handleIncrementalItem inc) ctx items))"
    using kinds_foldl [of items "handleIncrementalItem inc" ctx] kinds_handleIncrementalItem assms(2)
    by blast
  then show ?thesis
    by (simp add: handleIncrementalItems_def JArr)
qed (simp_all add: handleIncrementalItems_def assms(2) kindsKept_refl)

lemma kinds_processIncrementalEntry:
  assumes "patchOnly inc" and "storeKeyed (fst ctx)"
  shows "storeKeyed (fst (processIncrementalEntry ctx inc))
       \<and> kindsKept (fst ctx) (fst (processIncrementalEntry ctx inc))"
proof -
  let ?c1 = "if isArray (property inc ''items'') then handleIncrementalItems inc ctx else ctx"
  have 1: "storeKeyed (fst ?c1)" "kindsKept (fst ctx) (fst ?c1)"
    using kinds_handleIncrementalItems [OF assms] assms(2) by (simp_all add: kindsKept_refl)
  let ?c2 = "if truthy (property inc ''data'') then handleIncrementalData inc ?c1 else ?c1"
  have 2: "kindsKept (fst ?c1) (fst ?c2)"
    using kindsKept_handleIncrementalData [OF 1(1), of inc] by (simp add: kindsKept_refl)
  have 3: "storeKeyed (fst ?c2)"
    using storeKeyed_storeSteps [OF storeSteps_handleIncrementalData 1(1), of inc] 1(1) by simp
  have "processIncrementalEntry ctx inc = (if \<not> truthy inc then ctx else ?c2)"
    by (simp add: processIncrementalEntry_def Let_def)
  then show ?thesis
    using 3 kindsKept_trans [OF 1(2) 2] assms(2) by (simp add: kindsKept_refl)
qed

lemma kinds_incremental_entries:
  assumes "list_all patchOnly incs" and "storeKeyed (fst ctx)"
  shows "storeKeyed (fst (foldl processIncrementalEntry ctx incs))
       \<and> kindsKept (fst ctx) (fst (foldl processIncrementalEntry ctx incs))"
proof -
  have "\<And>c inc. inc \<in> set incs \<Longrightarrow> storeKeyed (fst c) \<Longrightarrow>
      storeKeyed (fst (processIncrementalEntry c inc)) \<and> kindsKept (fst c) (fst (processIncrementalEntry c inc))"
    using assms(1) kinds_processIncrementalEntry by (simp add: list_all_iff)
  then show ?thesis
    using kinds_foldl [of incs processIncrementalEntry ctx] assms(2) by blast
qed

lemma kinds_processPayload:
  assumes "patchPayload payload" and "storeKeyed (fst ctx)"
  shows "storeKeyed (fst (snd (processPayload payload ctx)))
       \<and> kindsKept (fst ctx) (fst (snd (processPayload payload ctx)))"
proof (cases "property payload ''incremental''")
  case (JArr incs)
  then have "list_all patchOnly incs"
    using assms(1) by (simp add: patchPayload_def)
  then show ?thesis
    using kinds_incremental_entries [OF _ assms(2), of incs] assms(1) JArr
    by (simp add: processPayload_def processIncrementalPayload_def patchPayload_def)
qed (use assms in \<open>simp_all add: processPayload_def processIncrementalPayload_def patchPayload_def
      kindsKept_refl\<close>)

lemma kinds_processPayloads:
  assumes "list_all patchPayload payloads" and "storeKeyed (fst ctx)"
  shows "kindsKept (fst ctx) (fst (processPayloads payloads ctx))"
proof -
  have "\<And>c p. p \<in> set payloads \<Longrightarrow> storeKeyed (fst c) \<Longrightarrow>
      storeKeyed (fst (snd (processPayload p c))) \<and> kindsKept (fst c) (fst (snd (processPayload p c)))"
    using assms(1) kinds_processPayload by (simp add: list_all_iff)
  then show ?thesis
    using kinds_foldl [of payloads "\<lambda>c p. snd (processPayload p c)" ctx] assms(2)
    unfolding processPayloads_def by blast
qed

text \<open>
  Claim C7, as the code has it.  The record stored under a key always has that key as its
  \<^verbatim>\<open>id\<close>, whatever payloads are processed.  Any sequence of payloads of patches, that
  is any sequence of data merges and array-field patches, leaves under every key of the
  store a record of the same \<^verbatim>\<open>id\<close> and the same \<^verbatim>\<open>__typename\<close>.  A wholesale
  replacement stores the incoming record as it is, with the \<^verbatim>\<open>__typename\<close> it comes
  with.
\<close>

theorem id_and_kind_kept_by_patches:
  assumes "storeKeyed (fst ctx)"
  shows "storeKeyed (fst (processPayloads payloads ctx))
       \<and> (list_all patchPayload patches \<longrightarrow>
            kindsKept (fst ctx) (fst (processPayloads patches ctx)))
       \<and> map_get (messageStore (storeMessage m (fst ctx))) (property m ''id'') = m"
  using storeKeyed_storeSteps [OF storeSteps_processPayloads assms, of payloads]
    kinds_processPayloads [OF _ assms, of patches]
  by (simp add: messageStore_storeMessage map_get_update)

text \<open>
  Claim C7, as stated, fails: a snapshot that brings a message of a stored id replaces the
  record, and the type name recorded under the id changes with it.
\<close>

theorem kind_replaced_counterexample:
  "property (getAguiMessage ''m1'' (fst (processPayloads [snapshot [sample_text ''m1'']]
       (empty_registry, no_tracker)))) ''__typename'' = JStr ''TextMessageOutput''
   \<and> property (getAguiMessage ''m1'' (fst (processPayloads [snapshot [sample_text ''m1''],
         snapshot [sample_action ''m1'' ''lookup'' ''1970-01-01T00:00:02.000Z'']]
       (empty_registry, no_tracker)))) ''__typename'' = ActionExecutionMessageOutput"
  by (simp add: processPayloads_def processPayload_def processDataPayload_def
      processDataMessage_def hasTypeAndId_def snapshot_def sample_text_def sample_action_def
      messageStore_storeMessage getAguiMessage_def map_get_def Let_def empty_registry_def)

theorem id_and_kind_kept_by_patches_witness:
  "storeKeyed (fst (storeMessage (sample_text ''m1'') empty_registry, no_tracker(0 \<mapsto> ''m1'')))
   \<and> list_all patchPayload [incrementalPayload [sample_patch, sample_segment 1 ''there'']]
   \<and> kindsKept (fst (storeMessage (sample_text ''m1'') empty_registry, no_tracker(0 \<mapsto> ''m1'')))
        (fst (processPayloads [incrementalPayload [sample_patch, sample_segment 1 ''there'']]
           (storeMessage (sample_text ''m1'') empty_registry, no_tracker(0 \<mapsto> ''m1''))))
   \<and> getAguiMessage ''m1''
        (fst (snd (processPayload (incrementalPayload [sample_patch, sample_segment 1 ''there''])
           (storeMessage (sample_text ''m1'') empty_registry, no_tracker(0 \<mapsto> ''m1'')))))
      = JObj [(''__typename'', JStr ''TextMessageOutput''), (''id'', JStr ''m1''),
           (''createdAt'', JStr ''1970-01-01T00:00:01.000Z''),
           (''content'', JArr [JStr ''hi'', JStr ''there'']), (''role'', JStr ''assistant'')]"
proof -
  have k: "storeKeyed (fst (storeMessage (sample_text ''m1'') empty_registry, no_tracker(0 \<mapsto> ''m1'')))"
    by (simp add: storeKeyed_def map_of_storeMessage empty_registry_def sample_text_def)
  have p: "list_all patchPayload [incrementalPayload [sample_patch, sample_segment 1 ''there'']]"
    by (simp add: patchPayload_def incrementalPayload_def patchOnly_def sample_patch_def
        sample_segment_def isMessageObject_def)
  let ?reg0 = "storeMessage (sample_text ''m1'') empty_registry"
  let ?tr0 = "no_tracker(0 \<mapsto> ''m1'')"
  let ?u1 = "JObj [(''__typename'', JStr ''TextMessageOutput''), (''id'', JStr ''m1''),
           (''createdAt'', JStr ''1970-01-01T00:00:01.000Z''),
           (''content'', JArr [JStr ''hi'']), (''role'', JStr ''assistant'')]"
  let ?u2 = "JObj [(''__typename'', JStr ''TextMessageOutput''), (''id'', JStr ''m1''),
           (''createdAt'', JStr ''1970-01-01T00:00:01.000Z''),
           (''content'', JArr [JStr ''hi'', JStr ''there'']), (''role'', JStr ''assistant'')]"
  have m1: "mergedMessage (sample_text ''m1'') (property sample_patch ''data'') = ?u1"
    by (simp add: mergedMessage_def sample_text_def sample_patch_def AList.merge_def)
  have s1: "processIncrementalEntry (?reg0, ?tr0) sample_patch = (storeMessage ?u1 ?reg0, ?tr0)"
    unfolding m1 [symmetric]
    by (simp add: processIncrementalEntry_def handleIncrementalData_def sample_patch_def
        sample_path_def getMessageIndexFromPath_def messagePathIdx_def at_def
        messageStore_storeMessage map_get_update sample_text_def Let_def)
  have m2: "patchedMessage ?u1 ''content'' 1 ''there'' = ?u2"
    by (simp add: patchedMessage_def updateArrayField_def assignIndex_def)
  have s2: "processIncrementalEntry (storeMessage ?u1 ?reg0, ?tr0) (sample_segment 1 ''there'')
      = (storeMessage ?u2 (storeMessage ?u1 ?reg0), ?tr0)"
    unfolding m2 [symmetric]
    using applyArrayFieldUpdate_resolved [of "sample_segment 1 ''there''" 0 "''content''" 1 ?tr0
        "''m1''" "storeMessage ?u1 ?reg0" "''there''"] addresses_sample_segment [of 1 "''there''"]
    by (simp add: processIncrementalEntry_def handleIncrementalItems_def handleIncrementalItem_def
        isMessageObject_def sample_segment_def messageStore_storeMessage map_get_update)
  have e: "getAguiMessage ''m1''
        (fst (snd (processPayload (incrementalPayload [sample_patch, sample_segment 1 ''there''])
           (?reg0, ?tr0)))) = ?u2"
    by (simp add: processPayload_incremental s1 s2 getAguiMessage_def messageStore_storeMessage
        map_get_update)
  show ?thesis
    using id_and_kind_kept_by_patches [OF k, of "[]"
        "[incrementalPayload [sample_patch, sample_segment 1 ''there'']]"] k p e
    by simp
qed

text \<open>
  Claim C1.  The registry stores the one element of a snapshot, but the tracker gets no
  entry for its position: after the snapshot that brings the message \<^verbatim>\<open>m1\<close> at
  position \<open>0\<close> the message is in the store, the tracker has nothing for \<open>0\<close>, and the
  data patch for position \<open>0\<close> that comes next is dropped, the stored message staying
  without the \<^verbatim>\<open>role\<close> of the patch.  When the same message comes as the item of an
  incremental entry for position \<open>0\<close> instead, \<^verbatim>\<open>handleIncrementalItems\<close> maps \<open>0\<close>
  to \<^verbatim>\<open>m1\<close> and the same patch is merged.
\<close>

theorem snapshot_leaves_tracker_unset:
  "getAguiMessage ''m1'' (fst (snd (processPayload (snapshot [sample_text ''m1''])
       (empty_registry, no_tracker)))) = sample_text ''m1''
   \<and> snd (snd (processPayload (snapshot [sample_text ''m1'']) (empty_registry, no_tracker))) 0 = None
   \<and> processPayload (incrementalPayload [sample_patch])
        (snd (processPayload (snapshot [sample_text ''m1'']) (empty_registry, no_tracker)))
      = (None, snd (processPayload (snapshot [sample_text ''m1'']) (empty_registry, no_tracker)))
   \<and> property (getAguiMessage ''m1'' (fst (snd (processPayload (incrementalPayload [sample_patch])
        (snd (processPayload (snapshot [sample_text ''m1'']) (empty_registry, no_tracker)))))))
        ''role'' = JUndefined
   \<and> snd (snd (processPayload (incrementalPayload [sample_items (sample_text ''m1'')])
        (empty_registry, no_tracker))) 0 = Some ''m1''
   \<and> property (getAguiMessage ''m1'' (fst (snd (processPayload (incrementalPayload [sample_patch])
        (snd (processPayload (incrementalPayload [sample_items (sample_text ''m1'')])
           (empty_registry, no_tracker))))))) ''role'' = JStr ''assistant''"
proof -
  let ?reg1 = "storeMessage (sample_text ''m1'') empty_registry"
  have s: "processPayload (snapshot [sample_text ''m1'']) (empty_registry, no_tracker)
      = (None, (?reg1, no_tracker))"
    by (simp add: processPayload_def processDataPayload_def processDataMessage_def hasTypeAndId_def
        snapshot_def sample_text_def)
  have p: "processPayload (incrementalPayload [sample_patch]) (?reg1, no_tracker)
      = (None, (?reg1, no_tracker))"
    by (simp add: processPayload_incremental processIncrementalEntry_def handleIncrementalData_def
        sample_patch_def sample_path_def getMessageIndexFromPath_def messagePathIdx_def at_def
        no_tracker_def)
  have g: "getAguiMessage ''m1'' ?reg1 = sample_text ''m1''"
    by (simp add: getAguiMessage_def messageStore_storeMessage map_get_update sample_text_def)
  have i: "processPayload (incrementalPayload [sample_items (sample_text ''m1'')])
        (empty_registry, no_tracker) = (None, (?reg1, no_tracker(0 \<mapsto> ''m1'')))"
    by (simp add: processPayload_incremental processIncrementalEntry_def handleIncrementalItems_def
        handleIncrementalItem_def isMessageObject_def sample_items_def sample_text_def
        sample_path_def getMessageIndexFromPath_def messagePathIdx_def at_def)
  have idx: "getMessageIndexFromPath (property sample_patch ''path'') = Some 0"
    by (simp add: sample_patch_def sample_path_def getMessageIndexFromPath_def messagePathIdx_def
        at_def)
  have cur: "map_get (messageStore ?reg1) (JStr ''m1'') = sample_text ''m1''"
    by (simp add: messageStore_storeMessage map_get_update sample_text_def)
  have "truthy (sample_text ''m1'')" "truthy (property sample_patch ''data'')"
    "\<not> isArray (property sample_patch ''items'')"
    by (simp_all add: sample_text_def sample_patch_def)
  then have q: "processPayload (incrementalPayload [sample_patch]) (?reg1, no_tracker(0 \<mapsto> ''m1''))
      = (None, (storeMessage (mergedMessage (sample_text ''m1'') (property sample_patch ''data'')) ?reg1,
           no_tracker(0 \<mapsto> ''m1'')))"
    using handleIncrementalData_mapped [of sample_patch 0 "no_tracker(0 \<mapsto> ''m1'')" "''m1''" ?reg1]
      idx cur
    by (simp add: processPayload_incremental processIncrementalEntry_data_only [OF idx])
  have m: "property (mergedMessage (sample_text ''m1'') (property sample_patch ''data'')) ''id'' = JStr ''m1''"
    "property (mergedMessage (sample_text ''m1'') (property sample_patch ''data'')) ''role''
      = JStr ''assistant''"
    by (simp_all add: sample_text_def sample_patch_def property_mergedMessage)
  have r: "property (getAguiMessage ''m1''
      (storeMessage (mergedMessage (sample_text ''m1'') (property sample_patch ''data'')) ?reg1))
      ''role'' = JStr ''assistant''"
    using m by (simp add: getAguiMessage_def messageStore_storeMessage map_get_update mergedMessage_def)
  have u: "property (sample_text ''m1'') ''role'' = JUndefined"
    by (simp add: sample_text_def)
  show ?thesis
    unfolding s i using p q g r u by (simp add: no_tracker_def)
qed

section \<open>Properties of the recency policy\<close>

lemma last_filter_last: "ys \<noteq> [] \<Longrightarrow> Q (last ys) \<Longrightarrow> last (filter Q ys) = last ys"
  by (cases ys rule: rev_cases) auto

lemma sorted_last_greatest:
  "sorted (map f ys) \<Longrightarrow> y \<in> set ys \<Longrightarrow> f y \<le> f (last ys)"
  by (cases ys rule: rev_cases) (auto simp: sorted_append)

lemma last_sort_key:
  fixes f :: "'a \<Rightarrow> int"
  assumes "xs \<noteq> []"
  shows "last (sort_key f xs) \<in> set xs"
    and "\<forall>y \<in> set xs. f y \<le> f (last (sort_key f xs))"
    and "last (sort_key f xs) = last (filter (\<lambda>y. f y = f (last (sort_key f xs))) xs)"
proof -
  let ?s = "sort_key f xs"
  have ne: "?s \<noteq> []"
    using assms by (metis length_0_conv length_sort)
  show "last ?s \<in> set xs"
    using last_in_set [OF ne] by simp
  show "\<forall>y \<in> set xs. f y \<le> f (last ?s)"
    using sorted_last_greatest [of f ?s] by simp
  have "last (filter (\<lambda>y. f y = f (last ?s)) ?s) = last ?s"
    by (rule last_filter_last [OF ne]) simp
  then show "last ?s = last (filter (\<lambda>y. f y = f (last ?s)) xs)"
    by (simp add: sort_key_stable)
qed

lemma storedActionsNamed_filter:
  "storedActionsNamed reg m = filter (sameNamedAction m) (map snd (messageStore reg))"
  by (simp add: storedActionsNamed_def sameNamedAction_def [abs_def])

lemma sameNameActions_valid:
  assumes "\<forall>a \<in> snd ` set (messageStore reg). sameNamedAction m a \<longrightarrow> createdTime getTime a \<noteq> None"
  shows "sameNameActions getTime reg m = Some (sort_key (timeKey getTime) (storedActionsNamed reg m))"
proof -
  have "list_all (\<lambda>t. t \<noteq> None) (map (createdTime getTime) (storedActionsNamed reg m))"
    using assms by (auto simp: storedActionsNamed_filter list_all_iff)
  then show ?thesis
    by (simp add: sameNameActions_def)
qed

lemma shouldRenderAction_sorted:
  assumes "property m ''__typename'' = ActionExecutionMessageOutput"
    and "sameNameActions getTime reg m = Some same"
  shows "shouldRenderAction getTime reg m
     = Some (if same = [] then property m ''id'' = JUndefined
             else property m ''id'' = property (last same) ''id'')"
  using assms by (simp add: shouldRenderAction_def Let_def last_conv_nth)

lemma recency_sorted:
  assumes k: "property m ''__typename'' = ActionExecutionMessageOutput"
    and v: "\<forall>a \<in> snd ` set (messageStore reg). sameNamedAction m a \<longrightarrow> createdTime getTime a \<noteq> None"
  defines "same \<equiv> sort_key (timeKey getTime) (storedActionsNamed reg m)"
  shows "sameNameActions getTime reg m = Some same"
    and "sorted (map (timeKey getTime) same)"
    and "\<forall>t. filter (\<lambda>a. timeKey getTime a = t) same
           = filter (\<lambda>a. sameNamedAction m a \<and> timeKey getTime a = t) (map snd (messageStore reg))"
    and "set same = {a \<in> snd ` set (messageStore reg). sameNamedAction m a}"
    and "shouldRenderAction getTime reg m
           = Some (if same = [] then property m ''id'' = JUndefined
                   else property m ''id'' = property (last same) ''id'')"
    and "same \<noteq> [] \<longrightarrow>
           (\<forall>a \<in> snd ` set (messageStore reg). sameNamedAction m a \<longrightarrow>
               timeKey getTime a \<le> timeKey getTime (last same))
         \<and> last same = last (filter (\<lambda>a. sameNamedAction m a
                  \<and> timeKey getTime a = timeKey getTime (last same)) (map snd (messageStore reg)))"
proof -
  show s: "sameNameActions getTime reg m = Some same"
    unfolding same_def by (rule sameNameActions_valid [OF v])
  show "sorted (map (timeKey getTime) same)"
    by (simp add: same_def)
  show "\<forall>t. filter (\<lambda>a. timeKey getTime a = t) same
           = filter (\<lambda>a. sameNamedAction m a \<and> timeKey getTime a = t) (map snd (messageStore reg))"
    by (simp add: same_def sort_key_stable storedActionsNamed_filter)
  show "set same = {a \<in> snd ` set (messageStore reg). sameNamedAction m a}"
    by (auto simp: same_def storedActionsNamed_filter)
  show "shouldRenderAction getTime reg m
           = Some (if same = [] then property m ''id'' = JUndefined
                   else property m ''id'' = property (last same) ''id'')"
    by (rule shouldRenderAction_sorted [OF k s])
  show "same \<noteq> [] \<longrightarrow>
           (\<forall>a \<in> snd ` set (messageStore reg). sameNamedAction m a \<longrightarrow>
               timeKey getTime a \<le> timeKey getTime (last same))
         \<and> last same = last (filter (\<lambda>a. sameNamedAction m a
                  \<and> timeKey getTime a = timeKey getTime (last same)) (map snd (messageStore reg)))"
  proof
    assume "same \<noteq> []"
    then have ne: "storedActionsNamed reg m \<noteq> []"
      by (auto simp: same_def)
    have 1: "\<forall>a \<in> snd ` set (messageStore reg). sameNamedAction m a \<longrightarrow>
               timeKey getTime a \<le> timeKey getTime (last same)"
      using last_sort_key(2) [OF ne, of "timeKey getTime"]
      by (auto simp: same_def storedActionsNamed_filter)
    have 2: "last same = last (filter (\<lambda>a. sameNamedAction m a
                  \<and> timeKey getTime a = timeKey getTime (last same)) (map snd (messageStore reg)))"
      using last_sort_key(3) [OF ne, of "timeKey getTime"]
      by (simp add: same_def storedActionsNamed_filter)
    show "(\<forall>a \<in> snd ` set (messageStore reg). sameNamedAction m a \<longrightarrow>
               timeKey getTime a \<le> timeKey getTime (last same))
         \<and> last same = last (filter (\<lambda>a. sameNamedAction m a
                  \<and> timeKey getTime a = timeKey getTime (last same)) (map snd (messageStore reg)))"
      using 1 2 by blast
  qed
qed

lemma recency_three:
  assumes s: "{x \<in> snd ` set (messageStore reg). sameNamedAction a x} = {a, b, c}"
    and ids: "property a ''id'' \<noteq> property c ''id''" "property b ''id'' \<noteq> property c ''id''"
    and t: "createdTime getTime a = Some ta" "createdTime getTime b = Some tb"
      "createdTime getTime c = Some tc" "ta < tb" "tb < tc"
  shows "shouldRenderAction getTime reg c = Some True"
    and "shouldRenderAction getTime reg a = Some False"
    and "shouldRenderAction getTime reg b = Some False"
proof -
  have mem: "sameNamedAction a a" "sameNamedAction a b" "sameNamedAction a c"
    using s by auto
  then have like: "sameNamedAction b = sameNamedAction a" "sameNamedAction c = sameNamedAction a"
    by (auto simp: sameNamedAction_def fun_eq_iff)
  have kinds: "property a ''__typename'' = ActionExecutionMessageOutput"
    "property b ''__typename'' = ActionExecutionMessageOutput"
    "property c ''__typename'' = ActionExecutionMessageOutput"
    using mem by (simp_all add: sameNamedAction_def)
  have v: "\<forall>x \<in> snd ` set (messageStore reg). sameNamedAction a x \<longrightarrow> createdTime getTime x \<noteq> None"
    using s t(1-3) by auto
  let ?same = "sort_key (timeKey getTime) (storedActionsNamed reg a)"
  have eq: "storedActionsNamed reg b = storedActionsNamed reg a"
    "storedActionsNamed reg c = storedActionsNamed reg a"
    by (simp_all add: storedActionsNamed_filter like)
  have set: "set ?same = {a, b, c}"
    using recency_sorted(4) [OF kinds(1) v] s by simp
  then have "set ?same \<noteq> {}"
    by simp
  then have ne: "?same \<noteq> []"
    by (simp only: set_empty not_False_eq_True)
  have "last ?same \<in> {a, b, c}"
    using last_in_set [OF ne] set by blast
  moreover have "timeKey getTime c \<le> timeKey getTime (last ?same)"
    using recency_sorted(6) [OF kinds(1) v] ne s by blast
  moreover have "timeKey getTime a = ta" "timeKey getTime b = tb" "timeKey getTime c = tc"
    using t(1-3) by (simp_all add: timeKey_def)
  ultimately have l: "last ?same = c"
    using t(4,5) by auto
  show "shouldRenderAction getTime reg a = Some False"
    using recency_sorted(5) [OF kinds(1) v] ne l ids by simp
  show "shouldRenderAction getTime reg b = Some False"
    using recency_sorted(5) [OF kinds(2), of reg getTime] v ne l ids by (simp add: like eq)
  show "shouldRenderAction getTime reg c = Some True"
    using recency_sorted(5) [OF kinds(3), of reg getTime] v ne l by (simp add: like eq)
qed


text \<open>
  Claim C4 (recency policy).  A message whose \<^verbatim>\<open>__typename\<close> is not that of an action is
  always rendered.  For an action message \<open>m\<close>, let the dates of all stored action messages
  of the name of \<open>m\<close> be valid.  Then the sorted list is defined; it is ascending by time; for
  every time it has exactly the stored action messages of that name and that time, in the
  order of the store (so it holds all stored messages of the name, no other message, and
  is stable); and \<open>m\<close> is rendered if and only if its id is the id of the last element of
  the list (if the list is empty: only if \<open>m\<close> has no id).  That last element has the
  greatest time among the stored actions of the name and is the last in store order among
  those of that time.  So when the stored actions of one name are three messages of
  strictly increasing dates and different ids, only the one of the greatest date is
  rendered.
\<close>

theorem recency_policy:
  "(property m ''__typename'' \<noteq> ActionExecutionMessageOutput \<longrightarrow>
      shouldRenderAction getTime reg m = Some True)
   \<and> (property m ''__typename'' = ActionExecutionMessageOutput
        \<and> (\<forall>a \<in> snd ` set (messageStore reg). sameNamedAction m a \<longrightarrow> createdTime getTime a \<noteq> None) \<longrightarrow>
      (\<exists>same.
          sameNameActions getTime reg m = Some same
        \<and> sorted (map (timeKey getTime) same)
        \<and> (\<forall>t. filter (\<lambda>a. timeKey getTime a = t) same
               = filter (\<lambda>a. sameNamedAction m a \<and> timeKey getTime a = t)
                   (map snd (messageStore reg)))
        \<and> set same = {a \<in> snd ` set (messageStore reg). sameNamedAction m a}
        \<and> shouldRenderAction getTime reg m
            = Some (if same = [] then property m ''id'' = JUndefined
                    else property m ''id'' = property (last same) ''id'')
        \<and> (same \<noteq> [] \<longrightarrow>
              (\<forall>a \<in> snd ` set (messageStore reg). sameNamedAction m a \<longrightarrow>
                  timeKey getTime a \<le> timeKey getTime (last same))
            \<and> last same = last (filter (\<lambda>a. sameNamedAction m a
                     \<and> timeKey getTime a = timeKey getTime (last same))
                   (map snd (messageStore reg))))))
   \<and> ({x \<in> snd ` set (messageStore reg). sameNamedAction a x} = {a, b, c}
        \<and> property a ''id'' \<noteq> property c ''id'' \<and> property b ''id'' \<noteq> property c ''id''
        \<and> createdTime getTime a = Some ta \<and> createdTime getTime b = Some tb
        \<and> createdTime getTime c = Some tc \<and> ta < tb \<and> tb < tc \<longrightarrow>
        shouldRenderAction getTime reg c = Some True
        \<and> shouldRenderAction getTime reg a = Some False
        \<and> shouldRenderAction getTime reg b = Some False)"
proof (intro conjI impI)
  assume "property m ''__typename'' \<noteq> ActionExecutionMessageOutput"
  then show "shouldRenderAction getTime reg m = Some True"
    by (simp add: shouldRenderAction_def)
next
  assume h: "property m ''__typename'' = ActionExecutionMessageOutput
        \<and> (\<forall>a \<in> snd ` set (messageStore reg). sameNamedAction m a \<longrightarrow> createdTime getTime a \<noteq> None)"
  then have k: "property m ''__typename'' = ActionExecutionMessageOutput"
    and v: "\<forall>a \<in> snd ` set (messageStore reg). sameNamedAction m a \<longrightarrow> createdTime getTime a \<noteq> None"
    by simp_all
  show "\<exists>same.
          sameNameActions getTime reg m = Some same
        \<and> sorted (map (timeKey getTime) same)
        \<and> (\<forall>t. filter (\<lambda>a. timeKey getTime a = t) same
               = filter (\<lambda>a. sameNamedAction m a \<and> timeKey getTime a = t)
                   (map snd (messageStore reg)))
        \<and> set same = {a \<in> snd ` set (messageStore reg). sameNamedAction m a}
        \<and> shouldRenderAction getTime reg m
            = Some (if same = [] then property m ''id'' = JUndefined
                    else property m ''id'' = property (last same) ''id'')
        \<and> (same \<noteq> [] \<longrightarrow>
              (\<forall>a \<in> snd ` set (messageStore reg). sameNamedAction m a \<longrightarrow>
                  timeKey getTime a \<le> timeKey getTime (last same))
            \<and> last same = last (filter (\<lambda>a. sameNamedAction m a
                     \<and> timeKey getTime a = timeKey getTime (last same))
                   (map snd (messageStore reg))))"
    by (rule exI [of _ "sort_key (timeKey getTime) (storedActionsNamed reg m)"])
      (intro conjI recency_sorted [OF k v])
next
  assume h: "{x \<in> snd ` set (messageStore reg). sameNamedAction a x} = {a, b, c}
        \<and> property a ''id'' \<noteq> property c ''id'' \<and> property b ''id'' \<noteq> property c ''id''
        \<and> createdTime getTime a = Some ta \<and> createdTime getTime b = Some tb
        \<and> createdTime getTime c = Some tc \<and> ta < tb \<and> tb < tc"
  show "shouldRenderAction getTime reg c = Some True"
    using recency_three(1) [of reg a b c getTime ta tb tc] h by blast
  show "shouldRenderAction getTime reg a = Some False"
    using recency_three(2) [of reg a b c getTime ta tb tc] h by blast
  show "shouldRenderAction getTime reg b = Some False"
    using recency_three(3) [of reg a b c getTime ta tb tc] h by blast
qed


lemma property_sample_action:
  "property (sample_action i n t) ''__typename'' = ActionExecutionMessageOutput"
  "property (sample_action i n t) ''id'' = JStr i"
  "property (sample_action i n t) ''name'' = JStr n"
  "property (sample_action i n t) ''createdAt'' = JStr t"
  by (simp_all add: sample_action_def)

lemma property_sample_text:
  "property (sample_text i) ''__typename'' = JStr ''TextMessageOutput''"
  "property (sample_text i) ''id'' = JStr i"
  by (simp_all add: sample_text_def)

lemma sample_getTime_values:
  "sample_getTime (JStr ''1970-01-01T00:00:01.000Z'') = Some 1000"
  "sample_getTime (JStr ''1970-01-01T00:00:02.000Z'') = Some 2000"
  "sample_getTime (JStr ''1970-01-01T00:00:03.000Z'') = Some 3000"
  "sample_getTime (JStr ''1970-01-01T00:00:04.000Z'') = Some 4000"
  "sample_getTime JUndefined = None"
  by (simp_all add: sample_getTime_def)

lemma messages_sample_store:
  "map snd (messageStore sample_store) =
     [sample_action ''s3'' ''search'' ''1970-01-01T00:00:03.000Z'', sample_text ''t1'',
      sample_action ''s1'' ''search'' ''1970-01-01T00:00:01.000Z'',
      sample_action ''l4'' ''lookup'' ''1970-01-01T00:00:04.000Z'',
      sample_action ''s2'' ''search'' ''1970-01-01T00:00:02.000Z'']"
  by (simp add: sample_store_def storeAll_def messageStore_storeMessage empty_registry_def
      property_sample_action property_sample_text)

theorem recency_policy_witness:
  "shouldRenderAction sample_getTime sample_store
      (sample_action ''s3'' ''search'' ''1970-01-01T00:00:03.000Z'') = Some True
   \<and> shouldRenderAction sample_getTime sample_store
      (sample_action ''s1'' ''search'' ''1970-01-01T00:00:01.000Z'') = Some False
   \<and> shouldRenderAction sample_getTime sample_store
      (sample_action ''s2'' ''search'' ''1970-01-01T00:00:02.000Z'') = Some False
   \<and> shouldRenderAction sample_getTime sample_store (sample_text ''t1'') = Some True
   \<and> shouldRenderAction sample_getTime sample_store
      (sample_action ''l4'' ''lookup'' ''1970-01-01T00:00:04.000Z'') = Some True
   \<and> sameNameActions sample_getTime sample_store
      (sample_action ''s1'' ''search'' ''1970-01-01T00:00:01.000Z'')
     = Some [sample_action ''s1'' ''search'' ''1970-01-01T00:00:01.000Z'',
             sample_action ''s2'' ''search'' ''1970-01-01T00:00:02.000Z'',
             sample_action ''s3'' ''search'' ''1970-01-01T00:00:03.000Z'']"
proof -
  let ?a = "sample_action ''s1'' ''search'' ''1970-01-01T00:00:01.000Z''"
  let ?b = "sample_action ''s2'' ''search'' ''1970-01-01T00:00:02.000Z''"
  let ?c = "sample_action ''s3'' ''search'' ''1970-01-01T00:00:03.000Z''"
  let ?l = "sample_action ''l4'' ''lookup'' ''1970-01-01T00:00:04.000Z''"
  note p = property_sample_action property_sample_text
  have like: "sameNamedAction ?a ?a" "sameNamedAction ?a ?b" "sameNamedAction ?a ?c"
    "\<not> sameNamedAction ?a ?l" "\<not> sameNamedAction ?a (sample_text ''t1'')"
    "sameNamedAction ?l ?l" "\<not> sameNamedAction ?l ?a" "\<not> sameNamedAction ?l ?b"
    "\<not> sameNamedAction ?l ?c" "\<not> sameNamedAction ?l (sample_text ''t1'')"
    by (simp_all add: sameNamedAction_def p)
  have times: "createdTime sample_getTime ?a = Some 1000" "createdTime sample_getTime ?b = Some 2000"
    "createdTime sample_getTime ?c = Some 3000" "createdTime sample_getTime ?l = Some 4000"
    by (simp_all add: createdTime_def p sample_getTime_values)
  have keys: "timeKey sample_getTime ?a = 1000" "timeKey sample_getTime ?b = 2000"
    "timeKey sample_getTime ?c = 3000"
    by (simp_all add: timeKey_def times)
  have set: "{x \<in> snd ` set (messageStore sample_store). sameNamedAction ?a x} = {?a, ?b, ?c}"
    using like messages_sample_store set_map [of snd "messageStore sample_store"] by auto
  have three: "shouldRenderAction sample_getTime sample_store ?c = Some True
      \<and> shouldRenderAction sample_getTime sample_store ?a = Some False
      \<and> shouldRenderAction sample_getTime sample_store ?b = Some False"
    using recency_policy [where a = ?a and b = ?b and c = ?c and reg = sample_store
        and getTime = sample_getTime and ta = 1000 and tb = 2000 and tc = 3000] set times
    by (simp add: p)
  have plain: "shouldRenderAction sample_getTime sample_store (sample_text ''t1'') = Some True"
    using recency_policy [where m = "sample_text ''t1''" and reg = sample_store
        and getTime = sample_getTime]
    by (simp add: p)
  have validl: "property ?l ''__typename'' = ActionExecutionMessageOutput
      \<and> (\<forall>x \<in> snd ` set (messageStore sample_store). sameNamedAction ?l x \<longrightarrow>
            createdTime sample_getTime x \<noteq> None)"
    using like times messages_sample_store set_map [of snd "messageStore sample_store"]
    by (auto simp: p)
  have "storedActionsNamed sample_store ?l = [?l]"
    by (simp add: storedActionsNamed_filter messages_sample_store like)
  then have "sameNameActions sample_getTime sample_store ?l = Some [?l]"
    by (simp add: sameNameActions_def times)
  then have lookup: "shouldRenderAction sample_getTime sample_store ?l = Some True"
    using recency_policy [where m = ?l and reg = sample_store and getTime = sample_getTime] validl
    by auto
  have "storedActionsNamed sample_store ?a = [?c, ?a, ?b]"
    by (simp add: storedActionsNamed_filter messages_sample_store like)
  then have sorted: "sameNameActions sample_getTime sample_store ?a = Some [?a, ?b, ?c]"
    by (simp add: sameNameActions_def times keys)
  show ?thesis
    using three plain lookup sorted by simp
qed

text \<open>
  With an action of the same name that has no date between two of different valid dates,
  the comparator is not consistent and the model leaves the result open; with that action
  and one dated action only, every comparison gives \<^verbatim>\<open>NaN\<close>, the array stays in the
  order of the store and its last element is rendered.
\<close>

lemma invalid_date_examples:
  "shouldRenderAction sample_getTime
      (storeAll [sample_action ''d1'' ''search'' ''1970-01-01T00:00:03.000Z'',
                 sample_undated ''d2'' ''search'',
                 sample_action ''d3'' ''search'' ''1970-01-01T00:00:01.000Z''] empty_registry)
      (sample_action ''d3'' ''search'' ''1970-01-01T00:00:01.000Z'') = None"
  "shouldRenderAction sample_getTime
      (storeAll [sample_action ''d1'' ''search'' ''1970-01-01T00:00:03.000Z'',
                 sample_undated ''d2'' ''search''] empty_registry)
      (sample_undated ''d2'' ''search'') = Some True"
proof -
  have u: "property (sample_undated i n) ''__typename'' = ActionExecutionMessageOutput"
    "property (sample_undated i n) ''id'' = JStr i" "property (sample_undated i n) ''name'' = JStr n"
    "property (sample_undated i n) ''createdAt'' = JUndefined" for i n
    by (simp_all add: sample_undated_def)
  note p = property_sample_action u
  show "shouldRenderAction sample_getTime
      (storeAll [sample_action ''d1'' ''search'' ''1970-01-01T00:00:03.000Z'',
                 sample_undated ''d2'' ''search'',
                 sample_action ''d3'' ''search'' ''1970-01-01T00:00:01.000Z''] empty_registry)
      (sample_action ''d3'' ''search'' ''1970-01-01T00:00:01.000Z'') = None"
    by (simp add: shouldRenderAction_def sameNameActions_def storedActionsNamed_def storeAll_def
        messageStore_storeMessage empty_registry_def createdTime_def p sample_getTime_values)
  show "shouldRenderAction sample_getTime
      (storeAll [sample_action ''d1'' ''search'' ''1970-01-01T00:00:03.000Z'',
                 sample_undated ''d2'' ''search''] empty_registry)
      (sample_undated ''d2'' ''search'') = Some True"
    by (simp add: shouldRenderAction_def sameNameActions_def storedActionsNamed_def storeAll_def
        messageStore_storeMessage empty_registry_def createdTime_def p sample_getTime_values)
qed

end
